theory Spec2Isabelle
  imports Main
begin

section \<open>JavaScript numbers and the strings that denote them\<close>

text \<open>
  A property access \<^verbatim>\<open>handle[i]\<close> with a number \<open>i\<close> reaches the proxy's \<^verbatim>\<open>get\<close> trap with
  the key \<^verbatim>\<open>String(i)\<close>, and the trap reads the key back with \<^verbatim>\<open>parseInt(property, 10)\<close>,
  which answers a number, that is a double. Both directions are modelled as ECMAScript
  defines them.

  A string of JavaScript is a sequence of UTF-16 code units, here a list of natural
  numbers; \<open>units\<close> gives the code units of an ASCII string of the model.
\<close>

definition units :: "string \<Rightarrow> nat list" where
  "units str = map of_char str"

text \<open>
  The non-negative integers that are doubles are those with a significand of at most 53
  binary digits, up to \<open>(2 ^ 53 - 1) * 2 ^ 971\<close>. \<open>to_double n\<close> is the double nearest to the
  integer \<open>n\<close>, with a tie going to the even significand; \<open>None\<close> stands for
  \<^verbatim>\<open>Infinity\<close>, the answer from \<open>2 ^ 1024 - 2 ^ 970\<close> on. An integer \<open>n\<close> is a double when
  \<open>to_double n = Some n\<close>, as every integer up to \<open>2 ^ 53\<close> is.
\<close>

function binary_digits :: "nat \<Rightarrow> nat" where
  "binary_digits n = (if n = 0 then 0 else Suc (binary_digits (n div 2)))"
  by pat_completeness auto
termination
  by (relation "measure id") auto

declare binary_digits.simps [simp del]

definition to_double :: "nat \<Rightarrow> nat option" where
  "to_double n =
     (let b = binary_digits n in
      if b \<le> 53 then Some n
      else
        (let k = b - 53; q = n div 2 ^ k; r = n mod 2 ^ k; half = 2 ^ (k - 1);
             q' = (if half < r \<or> (r = half \<and> odd q) then q + 1 else q)
         in if 2 ^ 1024 \<le> q' * 2 ^ k then None else Some (q' * 2 ^ k)))"

text \<open>
  The numbers that \<^verbatim>\<open>parseInt\<close> can answer: \<^verbatim>\<open>NaN\<close>, an integer with its sign, or an infinity
  with its sign. The flag is set for a negative number, so that \<open>Finite True 0\<close> is the
  double \<^verbatim>\<open>-0\<close>. \<open>less_zero\<close> is the comparison \<^verbatim>\<open>< 0\<close>, which is false of \<^verbatim>\<open>-0\<close> and of \<^verbatim>\<open>NaN\<close>.
\<close>

datatype js_number = NaN | Finite bool nat | Infinity bool

definition less_zero :: "js_number \<Rightarrow> bool" where
  "less_zero r = (case r of Finite neg m \<Rightarrow> neg \<and> 0 < m | Infinity neg \<Rightarrow> neg | NaN \<Rightarrow> False)"

text \<open>The decimal numeral of a natural number.\<close>

definition digit_char :: "nat \<Rightarrow> char" where
  "digit_char d = ''0123456789'' ! d"

function string_of_nat :: "nat \<Rightarrow> string" where
  "string_of_nat n =
     (if n < 10 then [digit_char n]
      else string_of_nat (n div 10) @ [digit_char (n mod 10)])"
  by pat_completeness auto
termination
  by (relation "measure id") auto

declare string_of_nat.simps [simp del]

text \<open>
  \<^verbatim>\<open>parseInt(string, 10)\<close>: the white space at the start is dropped, one sign is accepted, the
  longest prefix of decimal digits is read, and the answer is \<^verbatim>\<open>NaN\<close> when that prefix is
  empty, and otherwise the double nearest to the integer the digits denote, with the sign;
  no digits but zeros after a minus sign give \<^verbatim>\<open>-0\<close>. The white space is that of ECMAScript:
  the characters \<^verbatim>\<open>WhiteSpace\<close> (tab, vertical tab, form feed, the byte order mark and the
  space separators of Unicode) and \<^verbatim>\<open>LineTerminator\<close>. The digits are read exactly, as the
  engines do; ECMAScript also allows an implementation to read the digits after the
  twentieth as zeros.
\<close>

definition is_js_space :: "nat \<Rightarrow> bool" where
  "is_js_space u =
     (u \<in> set [0x0009, 0x000A, 0x000B, 0x000C, 0x000D, 0x0020, 0x00A0, 0x1680,
               0x2000, 0x2001, 0x2002, 0x2003, 0x2004, 0x2005, 0x2006, 0x2007, 0x2008,
               0x2009, 0x200A, 0x2028, 0x2029, 0x202F, 0x205F, 0x3000, 0xFEFF])"

definition is_digit :: "nat \<Rightarrow> bool" where
  "is_digit u = (48 \<le> u \<and> u \<le> 57)"

definition digits_value :: "nat list \<Rightarrow> nat" where
  "digits_value ds = foldl (\<lambda>acc u. acc * 10 + (u - 48)) 0 ds"

definition parseInt :: "nat list \<Rightarrow> js_number" where
  "parseInt str =
     (let s1 = dropWhile is_js_space str;
          negative = (s1 \<noteq> [] \<and> hd s1 = 45);
          s2 = (if s1 \<noteq> [] \<and> (hd s1 = 45 \<or> hd s1 = 43) then tl s1 else s1);
          z = takeWhile is_digit s2
      in if z = [] then NaN
         else (case to_double (digits_value z) of
                 None \<Rightarrow> Infinity negative
               | Some m \<Rightarrow> Finite negative m))"

text \<open>
  \<^verbatim>\<open>String(x)\<close> for a double \<open>x\<close> that is a non-negative integer. ECMAScript prints the
  decimal with the fewest significant digits among those whose nearest double is \<open>x\<close>, of
  these the one closest to \<open>x\<close>, and of two equally close the one with the even last digit.
  \<open>level x p\<close> holds the two multiples of \<open>p\<close> next to \<open>x\<close> in that order of preference,
  \<open>candidates x\<close> runs through the powers of ten from the largest down, so through the
  decimals of one significant digit, then of two, and so on, and \<open>shortest x\<close> is the first
  candidate that reads back as \<open>x\<close>. A decimal of at most 21 digits is printed as it is: the
  key of \<open>2 ^ 64\<close> is \<^verbatim>\<open>18446744073709552000\<close>. A longer one is printed in exponent notation,
  the first digit, a point and the other significant digits when there are any, then
  \<^verbatim>\<open>e+\<close> and the exponent: the key of \<open>10 ^ 21\<close> is \<^verbatim>\<open>1e+21\<close>.
\<close>

definition level :: "nat \<Rightarrow> nat \<Rightarrow> nat list" where
  "level x p =
     (let lo = x div p * p; hi = lo + p
      in if x - lo < hi - x then [lo, hi]
         else if hi - x < x - lo then [hi, lo]
         else if even (x div p) then [lo, hi] else [hi, lo])"

definition candidates :: "nat \<Rightarrow> nat list" where
  "candidates x =
     concat (map (\<lambda>j. level x (10 ^ j)) (rev [0 ..< length (string_of_nat x)]))"

definition shortest :: "nat \<Rightarrow> nat" where
  "shortest x =
     (case find (\<lambda>v. to_double v = Some x) (candidates x) of Some v \<Rightarrow> v | None \<Rightarrow> x)"

definition exponent_form :: "string \<Rightarrow> string" where
  "exponent_form ds =
     (let s = rev (dropWhile (\<lambda>c. c = CHR ''0'') (rev ds))
      in hd s # (if tl s = [] then [] else CHR ''.'' # tl s)
           @ ''e+'' @ string_of_nat (length ds - 1))"

definition number_string :: "nat \<Rightarrow> string" where
  "number_string x =
     (let ds = string_of_nat (shortest x)
      in if length ds \<le> 21 then ds else exponent_form ds)"

section \<open>Command arguments and result handles\<close>

text \<open>
  The index of a command or of an input is a position in an array. The result index of a
  nested result is whatever number the trap has read from the key.
\<close>

datatype command_argument =
    Input nat
  | GasCoin
  | Result nat
  | NestedResult nat js_number

datatype property_key = StringKey "nat list" | SymbolIterator | OtherSymbol string

datatype property_value =
    Undefined
  | StringValue string
  | NumberValue nat
  | InheritedValue "nat list"
  | GeneratorFunction
  | ObjectAt nat

text \<open>
  Objects have identity in JavaScript. The heap is the list of the \<^verbatim>\<open>NestedResult\<close> objects
  allocated so far, an object's identity is its position in that list, and allocation
  appends. The closure of \<^verbatim>\<open>createTransactionResult\<close> holds the base result, the captured
  command index and the array \<^verbatim>\<open>nestedResults\<close>, which maps the property name of a number
  to an object. The name of a number is its string, and \<^verbatim>\<open>0\<close> and \<^verbatim>\<open>-0\<close> have the same:
  \<open>array_slot\<close> is the number with that one identification made.
\<close>

type_synonym heap = "command_argument list"

record transaction_result =
  baseResult :: command_argument
  tr_index :: nat
  nestedResults :: "js_number \<rightharpoonup> nat"

definition createTransactionResult :: "nat \<Rightarrow> transaction_result" where
  "createTransactionResult idx =
     \<lparr>baseResult = Result idx, tr_index = idx, nestedResults = Map.empty\<rparr>"

definition array_slot :: "js_number \<Rightarrow> js_number" where
  "array_slot r = (if r = Finite True 0 then Finite False 0 else r)"

text \<open>\<^verbatim>\<open>nestedResults[resultIndex] ??= {kind: 'NestedResult', index, resultIndex}\<close>\<close>

definition nestedResultFor ::
  "js_number \<Rightarrow> transaction_result \<times> heap \<Rightarrow> nat \<times> transaction_result \<times> heap" where
  "nestedResultFor resultIndex s =
     (case s of (r, h) \<Rightarrow>
        (case nestedResults r (array_slot resultIndex) of
           Some a \<Rightarrow> (a, r, h)
         | None \<Rightarrow>
             (length h,
              r\<lparr>nestedResults := (nestedResults r)(array_slot resultIndex \<mapsto> length h)\<rparr>,
              h @ [NestedResult (tr_index r) resultIndex])))"

text \<open>
  \<^verbatim>\<open>property in target\<close> looks at the own properties of the base result (\<^verbatim>\<open>kind\<close>, \<^verbatim>\<open>index\<close>) and
  at those it inherits from \<^verbatim>\<open>Object.prototype\<close>, none of which has a symbol key.
\<close>

definition object_prototype_keys :: "string list" where
  "object_prototype_keys =
     [''constructor'', ''__defineGetter__'', ''__defineSetter__'', ''hasOwnProperty'',
      ''__lookupGetter__'', ''__lookupSetter__'', ''isPrototypeOf'', ''propertyIsEnumerable'',
      ''toString'', ''valueOf'', ''__proto__'', ''toLocaleString'']"

definition in_target :: "property_key \<Rightarrow> bool" where
  "in_target key =
     (case key of
        StringKey p \<Rightarrow> p \<in> set (map units ([''kind'', ''index''] @ object_prototype_keys))
      | _ \<Rightarrow> False)"

definition kind_name :: "command_argument \<Rightarrow> string" where
  "kind_name a =
     (case a of Input _ \<Rightarrow> ''Input'' | GasCoin \<Rightarrow> ''GasCoin''
      | Result _ \<Rightarrow> ''Result'' | NestedResult _ _ \<Rightarrow> ''NestedResult'')"

definition Reflect_get :: "transaction_result \<Rightarrow> property_key \<Rightarrow> property_value" where
  "Reflect_get r key =
     (case key of
        StringKey p \<Rightarrow>
          (if p = units ''kind'' then StringValue (kind_name (baseResult r))
           else if p = units ''index'' then NumberValue (tr_index r)
           else InheritedValue p)
      | _ \<Rightarrow> Undefined)"

text \<open>The \<^verbatim>\<open>get\<close> trap of the proxy, branch by branch.\<close>

definition get ::
  "property_key \<Rightarrow> transaction_result \<times> heap \<Rightarrow> property_value \<times> transaction_result \<times> heap" where
  "get property s =
     (if in_target property then (Reflect_get (fst s) property, s)
      else if property = SymbolIterator then (GeneratorFunction, s)
      else (case property of
              StringKey p \<Rightarrow>
                (let resultIndex = parseInt p
                 in if resultIndex = NaN \<or> less_zero resultIndex then (Undefined, s)
                    else (case nestedResultFor resultIndex s of (a, s') \<Rightarrow> (ObjectAt a, s')))
            | _ \<Rightarrow> (Undefined, s)))"

text \<open>
  The generator returned for \<^verbatim>\<open>Symbol.iterator\<close> yields \<^verbatim>\<open>nestedResultFor(0)\<close>,
  \<^verbatim>\<open>nestedResultFor(1)\<close>, ... without end; \<open>yields n\<close> is what a consumer that takes \<open>n\<close> values
  (a destructuring pattern of \<open>n\<close> names) receives. \<^verbatim>\<open>i++\<close> adds one to a double.
\<close>

definition increment :: "nat \<Rightarrow> nat" where
  "increment i = (case to_double (i + 1) of Some j \<Rightarrow> j | None \<Rightarrow> i + 1)"

fun yields_from ::
  "nat \<Rightarrow> nat \<Rightarrow> transaction_result \<times> heap \<Rightarrow> nat list \<times> transaction_result \<times> heap" where
  "yields_from i 0 s = ([], s)"
| "yields_from i (Suc n) s =
     (case nestedResultFor (Finite False i) s of
        (a, s') \<Rightarrow> (case yields_from (increment i) n s' of (as, s'') \<Rightarrow> (a # as, s'')))"

definition yields :: "nat \<Rightarrow> transaction_result \<times> heap \<Rightarrow> nat list \<times> transaction_result \<times> heap" where
  "yields n s = yields_from 0 n s"

text \<open>The \<^verbatim>\<open>set\<close> trap throws whatever the key and the value are.\<close>

datatype proxy_error = ProxySetNotSupported

definition set_property ::
  "property_key \<Rightarrow> 'v \<Rightarrow> transaction_result \<times> heap \<Rightarrow> proxy_error + transaction_result \<times> heap" where
  "set_property property v s = Inl ProxySetNotSupported"

text \<open>
  A number used as a key is converted to its string: for a double \<open>i\<close>, \<open>number_key i\<close> is
  the key of the number \<open>i\<close> and \<open>negative_number_key i\<close> the key of \<open>- i\<close>.
\<close>

definition number_key :: "nat \<Rightarrow> property_key" where
  "number_key i = StringKey (units (number_string i))"

definition negative_number_key :: "nat \<Rightarrow> property_key" where
  "negative_number_key i = StringKey (units (CHR ''-'' # number_string i))"

text \<open>A sequence of reads, the values dropped: what may have happened to a handle before.\<close>

fun gets :: "property_key list \<Rightarrow> transaction_result \<times> heap \<Rightarrow> transaction_result \<times> heap" where
  "gets [] s = s"
| "gets (k # ks) s = gets ks (snd (get k s))"

section \<open>Call arguments, values and inputs\<close>

text \<open>
  Modelled from the spec: the module \<^verbatim>\<open>./Inputs\<close> is not among the sources. A resolved call
  argument is \<open>Pure{wireType, bytes}\<close>, \<open>OwnedObjectRef{id, version, digest}\<close> or
  \<open>SharedObjectRef{id, initialSharedVersion, mutable}\<close>; the source reaches the two object
  forms as \<^verbatim>\<open>value.Object.ImmOrOwned\<close> and \<^verbatim>\<open>value.Object.Shared\<close>.
\<close>

datatype sui_object_ref =
  SuiObjectRef (objectId: string) (version: nat) (digest: string)

datatype shared_object_ref =
  SharedObjectRef (shared_objectId: string) (initialSharedVersion: nat) (mutable: bool)

datatype object_arg = ImmOrOwned sui_object_ref | Shared shared_object_ref

datatype call_arg = Pure (wireType: string) (bytes: "nat list") | Object object_arg

text \<open>
  The value of an input has the type \<^verbatim>\<open>unknown\<close>. \<open>JCallArg\<close> stands for every value that has
  the shape of a \<^verbatim>\<open>BuilderCallArg\<close>, \<open>JObject\<close> (the list of its entries) for every other
  object, so \<^verbatim>\<open>is(v, BuilderCallArg)\<close> holds of the \<open>JCallArg\<close> values only.
\<close>

datatype js_value =
    JUndefined
  | JString string
  | JNumber int
  | JBool bool
  | JArray "js_value list"
  | JObject "(string \<times> js_value) list"
  | JCallArg call_arg

definition is_BuilderCallArg :: "js_value \<Rightarrow> bool" where
  "is_BuilderCallArg v = (case v of JCallArg _ \<Rightarrow> True | _ \<Rightarrow> False)"

datatype input_type = ObjectInput | PureInput

record transaction_input =
  input_index :: nat
  input_type :: input_type
  input_value :: js_value

definition input_type_name :: "input_type \<Rightarrow> string" where
  "input_type_name t = (case t of ObjectInput \<Rightarrow> ''object'' | PureInput \<Rightarrow> ''pure'')"

text \<open>
  The input itself as a JavaScript value, the object
  \<^verbatim>\<open>{kind: 'Input', value, index, type}\<close> built by \<^verbatim>\<open>#input\<close>.
\<close>

definition input_object :: "transaction_input \<Rightarrow> js_value" where
  "input_object i =
     JObject [(''kind'', JString ''Input''), (''value'', input_value i),
              (''index'', JNumber (int (input_index i))),
              (''type'', JString (input_type_name (input_type i)))]"

text \<open>
  Modelled from the spec: \<^verbatim>\<open>isMutableSharedObjectInput\<close> of \<^verbatim>\<open>./Inputs\<close> is not among the sources;
  it tells whether an input "was already marked mutable", that is whether its value is a
  shared object reference with the flag set.
\<close>

definition isMutableSharedObjectInput :: "js_value \<Rightarrow> bool" where
  "isMutableSharedObjectInput v =
     (case v of JCallArg (Object (Shared r)) \<Rightarrow> mutable r | _ \<Rightarrow> False)"

section \<open>Commands\<close>

text \<open>
  Modelled from the spec: \<^verbatim>\<open>./Commands\<close> and \<^verbatim>\<open>./utils\<close> are not among the sources. Every
  command other than an entry-function call declares for each of its fields a pure encoding
  with a wire type, the object encoding, or no encoding. A command is kept with that table
  applied: its fields in the order of \<^verbatim>\<open>Object.entries\<close>, \<^verbatim>\<open>kind\<close> left out, each with its
  declared encoding. \<open>OpaqueCommand\<close> is a command whose type has no schema.
\<close>

datatype well_known_encoding = ObjectEncoding | PureEncoding string

datatype field_value =
    Single command_argument
  | Array "command_argument list"
  | Plain

datatype command =
    MoveCall (target: string) (arguments: "command_argument list")
  | OtherCommand "(well_known_encoding option \<times> field_value) list"
  | OpaqueCommand

section \<open>Collaborators\<close>

text \<open>
  Modelled from the spec: the normalized Move types of \<^verbatim>\<open>../types\<close> are not among the
  sources. A primitive type is a string in JavaScript, every other type an object with one
  key, which is what the source tests with \<^verbatim>\<open>typeof param === 'object'\<close> and
  \<^verbatim>\<open>'TypeParameter' in param\<close>.
\<close>

datatype move_type =
    Primitive string
  | TypeParameter nat
  | Reference move_type
  | MutableReference move_type
  | Vector move_type
  | Struct string string string "move_type list"

definition is_TypeParameter :: "move_type \<Rightarrow> bool" where
  "is_TypeParameter param = (case param of TypeParameter _ \<Rightarrow> True | _ \<Rightarrow> False)"

text \<open>
  Modelled from the spec: the answers of the remote query service (section 6 of the spec):
  \<open>getObjectBatch\<close> returns \<open>{status: Exists|NotFound, owner?, reference?}\<close> for each id and
  \<open>getCoins\<close> returns \<open>{coinObjectId, digest, version}\<close> for each coin.
\<close>

datatype object_status = Exists | NotFound

datatype object_owner = AddressOwner string | ObjectOwner string | SharedOwner nat | Immutable

record object_response =
  status :: object_status
  owner :: "object_owner option"
  reference :: "sui_object_ref option"

record coin =
  coinObjectId :: string
  coin_digest :: string
  coin_version :: nat

text \<open>
  Modelled from the spec: the accessors \<^verbatim>\<open>getSharedObjectInitialVersion\<close> and
  \<^verbatim>\<open>getObjectReference\<close> of \<^verbatim>\<open>../types\<close> are not among the sources. An object is shared when
  its owner is; the first accessor answers the initial version of a shared object and
  \<^verbatim>\<open>undefined\<close> otherwise, the second the reference of the answer, if it has one.
\<close>

definition getSharedObjectInitialVersion :: "object_response \<Rightarrow> nat option" where
  "getSharedObjectInitialVersion resp =
     (case owner resp of Some (SharedOwner v) \<Rightarrow> Some v | _ \<Rightarrow> None)"

definition getObjectReference :: "object_response \<Rightarrow> sui_object_ref option" where
  "getObjectReference resp = reference resp"

text \<open>
  The remote calls, recorded in the order in which they are issued. A remote call returns
  \<open>Inr\<close> its answer or \<open>Inl\<close> the message of its rejection.
\<close>

datatype remote_call =
    GetReferenceGasPrice
  | GetNormalizedMoveFunction string "string option" "string option"
  | GetObjectBatch "string list"
  | GetCoins "string option" string

record provider =
  getReferenceGasPrice :: "string + nat"
  getNormalizedMoveFunction :: "string \<Rightarrow> string option \<Rightarrow> string option \<Rightarrow> string + move_type list"
  getObjectBatch :: "string list \<Rightarrow> string + object_response list"
  getCoins :: "string option \<Rightarrow> string \<Rightarrow> string + coin list"

text \<open>
  The functions and constants that the source imports from modules that are not among the
  sources are parameters of the model: every theorem holds for whatever they compute.
  \<open>bcs_ser\<close> is the serialiser behind \<^verbatim>\<open>Inputs.Pure\<close>; it and the type inference may throw.
\<close>

record env =
  provider :: "provider option"
  normalizeSuiObjectId :: "string \<Rightarrow> string"
  getIdFromCallArg :: "js_value \<Rightarrow> string"
  isTxContext :: "move_type \<Rightarrow> bool"
  getPureSerializationType :: "move_type \<Rightarrow> js_value \<Rightarrow> string + string option"
  bcs_ser :: "string \<Rightarrow> js_value \<Rightarrow> string + nat list"
  extractStructTag :: "move_type \<Rightarrow> move_type option"
  extractMutableReference :: "move_type \<Rightarrow> move_type option"
  SUI_TYPE_ARG :: string

definition Inputs_Pure :: "env \<Rightarrow> string \<Rightarrow> js_value \<Rightarrow> string + call_arg" where
  "Inputs_Pure e t v = (case bcs_ser e t v of Inl m \<Rightarrow> Inl m | Inr bs \<Rightarrow> Inr (Pure t bs))"

text \<open>
  The errors of the builder, one constructor for each \<^verbatim>\<open>throw\<close> of \<^verbatim>\<open>#prepare\<close> and of
  \<^verbatim>\<open>expectProvider\<close>. \<open>TypeError\<close> is the runtime's error for reading a property of
  \<^verbatim>\<open>undefined\<close>; \<open>Thrown\<close> carries the message of an error raised by a collaborator (a
  rejected remote call, a failed type inference or serialisation).
\<close>

datatype error =
    MissingSender
  | MissingGasBudget
  | NoProvider
  | MissingInput
  | UnexpectedInputFormat
  | IncorrectNumberOfArguments
  | ExpectObjectIdString js_value
  | UnknownCallArgType move_type js_value
  | InvalidInputObjects "string list"
  | NoValidGasCoins
  | TypeError
  | Thrown string

section \<open>Transaction data and the input registry\<close>

text \<open>
  Modelled from the spec: \<^verbatim>\<open>./TransactionData\<close> is not among the sources. The transaction
  data are \<open>sender\<close>, \<open>gasConfig{price, budget, payment}\<close>, \<open>inputs\<close> and \<open>commands\<close>; the
  expiration is left out, since nothing modelled here reads it.
\<close>

record transaction_data =
  sender :: "string option"
  gas_price :: "string option"
  gas_budget :: "string option"
  gas_payment :: "sui_object_ref list option"
  inputs :: "transaction_input list"
  commands :: "command list"

text \<open>
  \<^verbatim>\<open>#input\<close> returns the object it pushed; an input's identity is its position in the
  registry, which is what the operations return.
\<close>

definition Transaction_input ::
  "input_type \<Rightarrow> js_value \<Rightarrow> transaction_data \<Rightarrow> nat \<times> transaction_data" where
  "Transaction_input t v td =
     (let idx = length (inputs td);
          input = \<lparr>input_index = idx, input_type = t, input_value = v\<rparr>
      in (idx, td\<lparr>inputs := inputs td @ [input]\<rparr>))"

text \<open>\<^verbatim>\<open>inputs.find(...)\<close>, answering the position of the first input that satisfies the test.\<close>

fun findIndex :: "('a \<Rightarrow> bool) \<Rightarrow> 'a list \<Rightarrow> nat option" where
  "findIndex P [] = None"
| "findIndex P (x # xs) = (if P x then Some 0 else map_option Suc (findIndex P xs))"

definition Transaction_object ::
  "env \<Rightarrow> js_value \<Rightarrow> transaction_data \<Rightarrow> nat \<times> transaction_data" where
  "Transaction_object e v td =
     (let ident = getIdFromCallArg e v;
          inserted = findIndex (\<lambda>i. input_type i = ObjectInput
                                    \<and> ident = getIdFromCallArg e (input_value i)) (inputs td)
      in case inserted of Some pos \<Rightarrow> (pos, td) | None \<Rightarrow> Transaction_input ObjectInput v td)"

definition Transaction_pure :: "js_value \<Rightarrow> transaction_data \<Rightarrow> nat \<times> transaction_data" where
  "Transaction_pure v td = Transaction_input PureInput v td"

text \<open>\<^verbatim>\<open>add\<close>: \<^verbatim>\<open>push\<close> returns the new length, the handle wraps the new command's position.\<close>

definition Transaction_add ::
  "command \<Rightarrow> transaction_data \<Rightarrow> transaction_result \<times> transaction_data" where
  "Transaction_add c td =
     (let td' = td\<lparr>commands := commands td @ [c]\<rparr>;
          idx = length (commands td')
      in (createTransactionResult (idx - 1), td'))"

section \<open>The resolution pipeline\<close>

text \<open>
  The local state of \<^verbatim>\<open>#prepare\<close>: the transaction data it mutates, its two queues, and the
  remote calls issued so far. An entry of \<^verbatim>\<open>objectsToResolve\<close> keeps its input by reference,
  here by position. A failure carries the error and the remote calls issued before it.
\<close>

record object_to_resolve =
  otr_id :: string
  otr_input :: nat
  normalizedType :: "move_type option"

record run_state =
  tx :: transaction_data
  moveModulesToResolve :: "(string \<times> command_argument list) list"
  objectsToResolve :: "object_to_resolve list"
  calls :: "remote_call list"

type_synonym failure = "error \<times> remote_call list"

text \<open>\<^verbatim>\<open>forEach\<close> with a callback that may throw: the first error ends the loop.\<close>

fun forEachM :: "('a \<Rightarrow> 's \<Rightarrow> 'e + 's) \<Rightarrow> 'a list \<Rightarrow> 's \<Rightarrow> 'e + 's" where
  "forEachM f [] s = Inr s"
| "forEachM f (x # xs) s = (case f x s of Inl e \<Rightarrow> Inl e | Inr s' \<Rightarrow> forEachM f xs s')"

definition bind :: "'e + 'a \<Rightarrow> ('a \<Rightarrow> 'e + 'b) \<Rightarrow> 'e + 'b" where
  "bind step rest = (case step of Inr v \<Rightarrow> rest v | Inl err \<Rightarrow> Inl err)"

definition fail :: "error \<Rightarrow> run_state \<Rightarrow> failure + run_state" where
  "fail e s = Inl (e, calls s)"

definition set_input_value :: "nat \<Rightarrow> js_value \<Rightarrow> run_state \<Rightarrow> run_state" where
  "set_input_value idx v s =
     s\<lparr>tx := (tx s)\<lparr>inputs := (inputs (tx s))[idx := (inputs (tx s) ! idx)\<lparr>input_value := v\<rparr>]\<rparr>\<rparr>"

definition push_object :: "object_to_resolve \<Rightarrow> run_state \<Rightarrow> run_state" where
  "push_object entry s = s\<lparr>objectsToResolve := objectsToResolve s @ [entry]\<rparr>"

subsection \<open>Preconditions and gas price (lines 283 to 295)\<close>

text \<open>\<^verbatim>\<open>!x\<close> on an optional string: it is \<^verbatim>\<open>undefined\<close> or the empty string.\<close>

definition unset :: "string option \<Rightarrow> bool" where
  "unset x = (case x of None \<Rightarrow> True | Some str \<Rightarrow> str = [])"

definition start_state :: "transaction_data \<Rightarrow> run_state" where
  "start_state td =
     \<lparr>tx = td, moveModulesToResolve = [], objectsToResolve = [], calls = []\<rparr>"

definition checkPreconditions :: "env \<Rightarrow> transaction_data \<Rightarrow> failure + run_state" where
  "checkPreconditions e td =
     (if unset (sender td) then Inl (MissingSender, [])
      else if unset (gas_budget td) then Inl (MissingGasBudget, [])
      else if unset (gas_price td) then
        (case provider e of
           None \<Rightarrow> Inl (NoProvider, [])
         | Some p \<Rightarrow>
             (case getReferenceGasPrice p of
                Inl m \<Rightarrow> Inl (Thrown m, [GetReferenceGasPrice])
              | Inr price \<Rightarrow>
                  Inr ((start_state (td\<lparr>gas_price := Some (string_of_nat price)\<rparr>))
                         \<lparr>calls := [GetReferenceGasPrice]\<rparr>)))
      else Inr (start_state td))"

subsection \<open>Argument classification (lines 309 to 376)\<close>

text \<open>
  \<^verbatim>\<open>command.arguments.some(...)\<close> stops at the first argument that needs encoding; reading
  \<^verbatim>\<open>.value\<close> of an input that does not exist is a \<open>TypeError\<close>.
\<close>

fun needsResolution :: "transaction_input list \<Rightarrow> command_argument list \<Rightarrow> error + bool" where
  "needsResolution ins [] = Inr False"
| "needsResolution ins (Input i # args) =
     (if i < length ins then
        (if \<not> is_BuilderCallArg (input_value (ins ! i)) then Inr True
         else needsResolution ins args)
      else Inl TypeError)"
| "needsResolution ins (_ # args) = needsResolution ins args"

definition encodeInput ::
  "env \<Rightarrow> well_known_encoding \<Rightarrow> nat \<Rightarrow> run_state \<Rightarrow> failure + run_state" where
  "encodeInput e wellKnownEncoding idx s =
     (if length (inputs (tx s)) \<le> idx then fail MissingInput s
      else
        (let input = inputs (tx s) ! idx in
         if is_BuilderCallArg (input_value input) then Inr s
         else
           (case (wellKnownEncoding, input_value input) of
              (ObjectEncoding, JString str) \<Rightarrow>
                Inr (push_object \<lparr>otr_id = str, otr_input = idx, normalizedType = None\<rparr> s)
            | (PureEncoding t, v) \<Rightarrow>
                (case Inputs_Pure e t v of
                   Inl m \<Rightarrow> fail (Thrown m) s
                 | Inr arg \<Rightarrow> Inr (set_input_value idx (JCallArg arg) s))
            | (ObjectEncoding, _) \<Rightarrow> fail UnexpectedInputFormat s)))"

definition encodeArgument ::
  "env \<Rightarrow> well_known_encoding \<Rightarrow> command_argument \<Rightarrow> run_state \<Rightarrow> failure + run_state" where
  "encodeArgument e wellKnownEncoding arg s =
     (case arg of Input idx \<Rightarrow> encodeInput e wellKnownEncoding idx s | _ \<Rightarrow> Inr s)"

definition encodeField ::
  "env \<Rightarrow> well_known_encoding option \<times> field_value \<Rightarrow> run_state \<Rightarrow> failure + run_state" where
  "encodeField e field s =
     (case fst field of
        None \<Rightarrow> Inr s
      | Some wellKnownEncoding \<Rightarrow>
          (case snd field of
             Array items \<Rightarrow> forEachM (encodeArgument e wellKnownEncoding) items s
           | Single arg \<Rightarrow> encodeArgument e wellKnownEncoding arg s
           | Plain \<Rightarrow> Inr s))"

definition classifyCommand :: "env \<Rightarrow> command \<Rightarrow> run_state \<Rightarrow> failure + run_state" where
  "classifyCommand e c s =
     (case c of
        MoveCall tgt args \<Rightarrow>
          (case needsResolution (inputs (tx s)) args of
             Inl err \<Rightarrow> fail err s
           | Inr True \<Rightarrow> Inr (s\<lparr>moveModulesToResolve := moveModulesToResolve s @ [(tgt, args)]\<rparr>)
           | Inr False \<Rightarrow> Inr s)
      | OpaqueCommand \<Rightarrow> Inr s
      | OtherCommand fs \<Rightarrow> forEachM (encodeField e) fs s)"

definition classifyCommands :: "env \<Rightarrow> run_state \<Rightarrow> failure + run_state" where
  "classifyCommands e s = forEachM (classifyCommand e) (commands (tx s)) s"

subsection \<open>Signature resolution (lines 378 to 455)\<close>

text \<open>\<^verbatim>\<open>target.split('::')\<close>\<close>

fun split_colons :: "string \<Rightarrow> string \<Rightarrow> string list" where
  "split_colons cur [] = [rev cur]"
| "split_colons cur [c] = [rev (c # cur)]"
| "split_colons cur (c # d # rest) =
     (if c = CHR '':'' \<and> d = CHR '':'' then rev cur # split_colons [] rest
      else split_colons (c # cur) (d # rest))"

definition nth_opt :: "'a list \<Rightarrow> nat \<Rightarrow> 'a option" where
  "nth_opt xs i = (if i < length xs then Some (xs ! i) else None)"

definition request_of :: "env \<Rightarrow> string \<times> command_argument list \<Rightarrow> remote_call" where
  "request_of e moveCall =
     (let parts = split_colons [] (fst moveCall)
      in GetNormalizedMoveFunction (normalizeSuiObjectId e (hd parts)) (nth_opt parts 1) (nth_opt parts 2))"

definition fetch_parameters ::
  "env \<Rightarrow> provider \<Rightarrow> string \<times> command_argument list \<Rightarrow> string + move_type list" where
  "fetch_parameters e p moveCall =
     (let parts = split_colons [] (fst moveCall)
      in getNormalizedMoveFunction p (normalizeSuiObjectId e (hd parts)) (nth_opt parts 1) (nth_opt parts 2))"

text \<open>Lines 395 to 401: the parameters the caller has to supply.\<close>

definition expected_params :: "env \<Rightarrow> move_type list \<Rightarrow> move_type list" where
  "expected_params e parameters =
     (let hasTxContext = (length parameters > 0 \<and> isTxContext e (last parameters))
      in if hasTxContext then take (length parameters - 1) parameters else parameters)"

text \<open>
  Lines 407 to 452, the callback of \<^verbatim>\<open>params.forEach\<close>. The test of line 412 is applied to
  the input, as the source does, not to the input's value. \<^verbatim>\<open>if (serType)\<close> is false for
  \<^verbatim>\<open>undefined\<close> and for the empty string.
\<close>

definition resolveParam ::
  "env \<Rightarrow> command_argument list \<Rightarrow> nat \<times> move_type \<Rightarrow> run_state \<Rightarrow> failure + run_state" where
  "resolveParam e args ip s =
     (case ip of (i, param) \<Rightarrow>
        (case args ! i of
           Input idx \<Rightarrow>
             (if length (inputs (tx s)) \<le> idx then fail TypeError s
              else
                (let input = inputs (tx s) ! idx in
                 if is_BuilderCallArg (input_object input) then Inr s
                 else
                   (let inputValue = input_value input in
                    case getPureSerializationType e param inputValue of
                      Inl m \<Rightarrow> fail (Thrown m) s
                    | Inr serType \<Rightarrow>
                        (if \<not> unset serType then
                           (case Inputs_Pure e (the serType) inputValue of
                              Inl m \<Rightarrow> fail (Thrown m) s
                            | Inr arg \<Rightarrow> Inr (set_input_value idx (JCallArg arg) s))
                         else if extractStructTag e param \<noteq> None \<or> is_TypeParameter param then
                           (case inputValue of
                              JString str \<Rightarrow>
                                Inr (push_object
                                       \<lparr>otr_id = str, otr_input = idx, normalizedType = Some param\<rparr> s)
                            | _ \<Rightarrow> fail (ExpectObjectIdString inputValue) s)
                         else fail (UnknownCallArgType param inputValue) s))))
         | _ \<Rightarrow> Inr s))"

text \<open>
  The part of one callback of \<^verbatim>\<open>moveModulesToResolve.map\<close> that runs once its signature
  has arrived.
\<close>

definition resolveMoveCall ::
  "env \<Rightarrow> provider \<Rightarrow> string \<times> command_argument list \<Rightarrow> run_state \<Rightarrow> failure + run_state" where
  "resolveMoveCall e p moveCall s =
     (case fetch_parameters e p moveCall of
        Inl m \<Rightarrow> fail (Thrown m) s
      | Inr parameters \<Rightarrow>
          (let params = expected_params e parameters in
           if length params \<noteq> length (snd moveCall) then fail IncorrectNumberOfArguments s
           else forEachM (resolveParam e (snd moveCall)) (enumerate 0 params) s))"

text \<open>
  \<^verbatim>\<open>Promise.all\<close> over the callbacks: each callback runs up to its \<^verbatim>\<open>await\<close> at once, so all
  requests are issued first, in the order of the queue; the callbacks then continue as the
  answers arrive. The model lets the answers arrive in the order of the requests.
\<close>

definition resolveMoveCalls :: "env \<Rightarrow> run_state \<Rightarrow> failure + run_state" where
  "resolveMoveCalls e s =
     (if moveModulesToResolve s = [] then Inr s
      else
        (case provider e of
           None \<Rightarrow> fail NoProvider s
         | Some p \<Rightarrow>
             forEachM (resolveMoveCall e p) (moveModulesToResolve s)
               (s\<lparr>calls := calls s @ map (request_of e) (moveModulesToResolve s)\<rparr>)))"

subsection \<open>Object reference resolution (lines 457 to 502)\<close>

text \<open>\<^verbatim>\<open>[...new Set(ids)]\<close>: the first occurrence of each id, in the order of insertion.\<close>

definition new_Set :: "'a list \<Rightarrow> 'a list" where
  "new_Set xs = fold (\<lambda>x acc. if x \<in> set acc then acc else acc @ [x]) xs []"

text \<open>
  \<^verbatim>\<open>objectsById\<close> pairs each id with \<^verbatim>\<open>objects[index]\<close>, which is \<^verbatim>\<open>undefined\<close> when the answer
  is shorter than the request; the filter then fails on \<^verbatim>\<open>obj.status\<close>.
\<close>

definition make_objectsById ::
  "string list \<Rightarrow> object_response list \<Rightarrow> (string \<times> object_response option) list" where
  "make_objectsById dedupedIds objects =
     map (\<lambda>(ident, i). (ident, nth_opt objects i)) (zip dedupedIds [0 ..< length dedupedIds])"

fun invalid_objects :: "(string \<times> object_response option) list \<Rightarrow> error + string list" where
  "invalid_objects [] = Inr []"
| "invalid_objects ((ident, obj) # rest) =
     (case obj of
        None \<Rightarrow> Inl TypeError
      | Some resp \<Rightarrow>
          (case invalid_objects rest of
             Inl err \<Rightarrow> Inl err
           | Inr ids \<Rightarrow> Inr (if status resp \<noteq> Exists then ident # ids else ids)))"

text \<open>
  Lines 480 to 501, the callback of \<^verbatim>\<open>objectsToResolve.forEach\<close>. \<^verbatim>\<open>if (initialSharedVersion)\<close>
  is false for \<^verbatim>\<open>undefined\<close> and for the number 0. An object without a reference leaves the
  malformed value \<^verbatim>\<open>{Object: {ImmOrOwned: undefined}}\<close>.
\<close>

definition resolved_value ::
  "env \<Rightarrow> object_response \<Rightarrow> object_to_resolve \<Rightarrow> js_value \<Rightarrow> js_value" where
  "resolved_value e object entry current =
     (case getSharedObjectInitialVersion object of
        Some (Suc v) \<Rightarrow>
          (let is_mutable =
                 (isMutableSharedObjectInput current
                  \<or> (case normalizedType entry of
                        None \<Rightarrow> False
                      | Some t \<Rightarrow> extractMutableReference e t \<noteq> None))
           in JCallArg (Object (Shared (SharedObjectRef (otr_id entry) (Suc v) is_mutable))))
      | _ \<Rightarrow>
          (case getObjectReference object of
             Some r \<Rightarrow> JCallArg (Object (ImmOrOwned r))
           | None \<Rightarrow> JObject [(''Object'', JObject [(''ImmOrOwned'', JUndefined)])]))"

definition resolveObject ::
  "env \<Rightarrow> (string \<times> object_response option) list \<Rightarrow> object_to_resolve \<Rightarrow> run_state
     \<Rightarrow> failure + run_state" where
  "resolveObject e objectsById entry s =
     (case map_of objectsById (otr_id entry) of
        Some (Some object) \<Rightarrow>
          Inr (set_input_value (otr_input entry)
                 (resolved_value e object entry
                    (input_value (inputs (tx s) ! otr_input entry))) s)
      | _ \<Rightarrow> fail TypeError s)"

text \<open>Lines 463 to 501: what is done with the answer of the batched fetch.\<close>

definition resolveFetchedObjects ::
  "env \<Rightarrow> string list \<Rightarrow> object_response list \<Rightarrow> run_state \<Rightarrow> failure + run_state" where
  "resolveFetchedObjects e dedupedIds objects s1 =
     (let objectsById = make_objectsById dedupedIds objects in
      case invalid_objects objectsById of
        Inl err \<Rightarrow> fail err s1
      | Inr invalidObjects \<Rightarrow>
          (if invalidObjects \<noteq> [] then fail (InvalidInputObjects invalidObjects) s1
           else forEachM (resolveObject e objectsById) (objectsToResolve s1) s1))"

definition resolveObjects :: "env \<Rightarrow> run_state \<Rightarrow> failure + run_state" where
  "resolveObjects e s =
     (if objectsToResolve s = [] then Inr s
      else
        (let dedupedIds = new_Set (map otr_id (objectsToResolve s)) in
         case provider e of
           None \<Rightarrow> fail NoProvider s
         | Some p \<Rightarrow>
             (let s1 = s\<lparr>calls := calls s @ [GetObjectBatch dedupedIds]\<rparr> in
              case getObjectBatch p dedupedIds of
                Inl m \<Rightarrow> fail (Thrown m) s1
              | Inr objects \<Rightarrow> resolveFetchedObjects e dedupedIds objects s1)))"

subsection \<open>Gas payment selection (lines 504 to 540)\<close>

definition matches_coin :: "coin \<Rightarrow> transaction_input \<Rightarrow> bool" where
  "matches_coin c input =
     (case input_value input of
        JCallArg (Object (ImmOrOwned r)) \<Rightarrow> coinObjectId c = objectId r
      | _ \<Rightarrow> False)"

definition coin_ref :: "coin \<Rightarrow> sui_object_ref" where
  "coin_ref c = SuiObjectRef (coinObjectId c) (coin_version c) (coin_digest c)"

definition select_payment :: "transaction_input list \<Rightarrow> coin list \<Rightarrow> sui_object_ref list" where
  "select_payment ins coins =
     map coin_ref (filter (\<lambda>c. find (matches_coin c) ins = None) coins)"

definition selectGasPayment :: "env \<Rightarrow> run_state \<Rightarrow> failure + run_state" where
  "selectGasPayment e s =
     (if gas_payment (tx s) \<noteq> None then Inr s
      else
        (case provider e of
           None \<Rightarrow> fail NoProvider s
         | Some p \<Rightarrow>
             (let s1 = s\<lparr>calls := calls s @ [GetCoins (sender (tx s)) (SUI_TYPE_ARG e)]\<rparr> in
              case getCoins p (sender (tx s)) (SUI_TYPE_ARG e) of
                Inl m \<Rightarrow> fail (Thrown m) s1
              | Inr coins \<Rightarrow>
                  (let payment = select_payment (inputs (tx s1)) coins in
                   if payment = [] then fail NoValidGasCoins s1
                   else Inr (s1\<lparr>tx := (tx s1)\<lparr>gas_payment := Some payment\<rparr>\<rparr>)))))"

subsection \<open>The whole of \<^verbatim>\<open>#prepare\<close>\<close>

definition resolveInputs :: "env \<Rightarrow> run_state \<Rightarrow> failure + run_state" where
  "resolveInputs e s =
     bind (classifyCommands e s) (\<lambda>s2. bind (resolveMoveCalls e s2) (resolveObjects e))"

definition prepare :: "env \<Rightarrow> transaction_data \<Rightarrow> failure + run_state" where
  "prepare e td =
     bind (checkPreconditions e td) (\<lambda>s1. bind (resolveInputs e s1) (selectGasPayment e))"

section \<open>Observations\<close>

text \<open>The remote calls issued by a run, whether it failed or not.\<close>

definition trace_of :: "failure + run_state \<Rightarrow> remote_call list" where
  "trace_of r = (case r of Inl (err, issued) \<Rightarrow> issued | Inr s \<Rightarrow> calls s)"

definition error_of :: "failure + run_state \<Rightarrow> error option" where
  "error_of r = (case r of Inl (err, issued) \<Rightarrow> Some err | Inr s \<Rightarrow> None)"

text \<open>
  What the steps of the pipeline leave alone: the sender, the gas configuration, the
  commands and the number of inputs; \<open>extra\<close> are the remote calls the step has issued. A
  step is quiet when it issues none, whether it fails or not.
\<close>

definition advances :: "remote_call list \<Rightarrow> run_state \<Rightarrow> run_state \<Rightarrow> bool" where
  "advances extra s s' =
     (calls s' = calls s @ extra \<and> sender (tx s') = sender (tx s)
      \<and> gas_price (tx s') = gas_price (tx s) \<and> gas_budget (tx s') = gas_budget (tx s)
      \<and> gas_payment (tx s') = gas_payment (tx s) \<and> commands (tx s') = commands (tx s)
      \<and> length (inputs (tx s')) = length (inputs (tx s)))"

definition quiet :: "('x \<Rightarrow> run_state \<Rightarrow> failure + run_state) \<Rightarrow> bool" where
  "quiet f =
     (\<forall>x s. case f x s of Inr s' \<Rightarrow> advances [] s s' | Inl (err, issued) \<Rightarrow> issued = calls s)"

definition is_signature_or_batch :: "remote_call \<Rightarrow> bool" where
  "is_signature_or_batch c =
     (case c of GetNormalizedMoveFunction _ _ _ \<Rightarrow> True | GetObjectBatch _ \<Rightarrow> True | _ \<Rightarrow> False)"

text \<open>
  A result \<open>r\<close> of a step started in \<open>s\<close> issues calls of the kind \<open>P\<close> only: the calls
  of \<open>s\<close> are followed by calls that satisfy \<open>P\<close>, and nothing else of the frame changes.
\<close>

definition issues :: "(remote_call \<Rightarrow> bool) \<Rightarrow> run_state \<Rightarrow> failure + run_state \<Rightarrow> bool" where
  "issues P s r =
     (\<exists>extra. list_all P extra
        \<and> (case r of Inr s' \<Rightarrow> advances extra s s' | Inl (err, issued) \<Rightarrow> issued = calls s @ extra))"

text \<open>
  The object ids of the inputs that hold an owned-object reference, and the states in which
  a run of \<^verbatim>\<open>#prepare\<close> on \<open>td\<close> reaches signature resolution, object resolution and gas
  payment selection.
\<close>

definition owned_object_id :: "transaction_input \<Rightarrow> string option" where
  "owned_object_id i =
     (case input_value i of JCallArg (Object (ImmOrOwned r)) \<Rightarrow> Some (objectId r) | _ \<Rightarrow> None)"

definition owned_object_ids :: "transaction_input list \<Rightarrow> string set" where
  "owned_object_ids ins = Option.these (owned_object_id ` set ins)"

definition reaches_signatures :: "env \<Rightarrow> transaction_data \<Rightarrow> run_state \<Rightarrow> bool" where
  "reaches_signatures e td s =
     (bind (checkPreconditions e td) (classifyCommands e) = Inr s)"

definition reaches_objects :: "env \<Rightarrow> transaction_data \<Rightarrow> run_state \<Rightarrow> bool" where
  "reaches_objects e td s =
     (bind (bind (checkPreconditions e td) (classifyCommands e)) (resolveMoveCalls e) = Inr s)"

definition reaches_gas :: "env \<Rightarrow> transaction_data \<Rightarrow> run_state \<Rightarrow> bool" where
  "reaches_gas e td s = (bind (checkPreconditions e td) (resolveInputs e) = Inr s)"

section \<open>Sample collaborators\<close>

text \<open>
  Modelled from the spec: one instance of the collaborators that are not among the sources,
  used to run the model on concrete transactions. A type is a transaction context when it
  is a mutable reference to \<open>0x2::tx_context::TxContext\<close>; the pure-serializable kinds are
  the primitive types; a struct tag is found in a struct and behind a reference; the
  logical id of a raw string is the string and that of a resolved reference its object id.
\<close>

definition sample_TxContext :: move_type where
  "sample_TxContext = MutableReference (Struct ''0x2'' ''tx_context'' ''TxContext'' [])"

definition sample_wire_type :: "string \<Rightarrow> string option" where
  "sample_wire_type p =
     map_of [(''Bool'', ''bool''), (''U8'', ''u8''), (''U64'', ''u64''), (''Address'', ''address'')] p"

definition u64_bytes :: "nat \<Rightarrow> nat list" where
  "u64_bytes n =
     map (\<lambda>d. n div d mod 256)
       [1, 256, 65536, 16777216, 4294967296, 1099511627776, 281474976710656,
        72057594037927936]"

definition sample_bcs_ser :: "string \<Rightarrow> js_value \<Rightarrow> string + nat list" where
  "sample_bcs_ser t v =
     (case v of
        JNumber n \<Rightarrow>
          (if t = ''u64'' \<and> 0 \<le> n then Inr (u64_bytes (nat n))
           else if t = ''u8'' \<and> 0 \<le> n \<and> n < 256 then Inr [nat n]
           else Inl ''cannot serialize'')
      | JBool b \<Rightarrow> (if t = ''bool'' then Inr [if b then 1 else 0] else Inl ''cannot serialize'')
      | _ \<Rightarrow> Inl ''cannot serialize'')"

definition sample_getPureSerializationType :: "move_type \<Rightarrow> js_value \<Rightarrow> string + string option" where
  "sample_getPureSerializationType param v =
     (case param of Primitive p \<Rightarrow> Inr (sample_wire_type p) | _ \<Rightarrow> Inr None)"

definition sample_extractStructTag :: "move_type \<Rightarrow> move_type option" where
  "sample_extractStructTag param =
     (case param of
        Struct a m n ts \<Rightarrow> Some param
      | Reference (Struct a m n ts) \<Rightarrow> Some (Struct a m n ts)
      | MutableReference (Struct a m n ts) \<Rightarrow> Some (Struct a m n ts)
      | _ \<Rightarrow> None)"

definition sample_extractMutableReference :: "move_type \<Rightarrow> move_type option" where
  "sample_extractMutableReference param =
     (case param of MutableReference t \<Rightarrow> Some t | _ \<Rightarrow> None)"

definition sample_getIdFromCallArg :: "js_value \<Rightarrow> string" where
  "sample_getIdFromCallArg v =
     (case v of
        JString str \<Rightarrow> str
      | JCallArg (Object (ImmOrOwned r)) \<Rightarrow> objectId r
      | JCallArg (Object (Shared r)) \<Rightarrow> shared_objectId r
      | _ \<Rightarrow> [])"

text \<open>
  The sample ledger: \<open>0xa\<close> is a shared object, \<open>0xc1\<close> and \<open>0xc2\<close> are coins the sender
  owns, every other id is unknown. The function \<open>f\<close> has the signature
  \<open>(&mut SomeStruct, u64, &mut TxContext)\<close> of the spec's scenario, \<open>g\<close> takes an immutable
  reference and a number, and \<open>h\<close> takes a signer.
\<close>

definition sample_object :: "string \<Rightarrow> object_response" where
  "sample_object ident =
     (if ident = ''0xa'' then
        \<lparr>status = Exists, owner = Some (SharedOwner 5), reference = Some (SuiObjectRef ''0xa'' 9 ''da'')\<rparr>
      else if ident = ''0xc1'' then
        \<lparr>status = Exists, owner = Some (AddressOwner ''0x5''), reference = Some (SuiObjectRef ''0xc1'' 3 ''d1'')\<rparr>
      else if ident = ''0xc2'' then
        \<lparr>status = Exists, owner = Some (AddressOwner ''0x5''), reference = Some (SuiObjectRef ''0xc2'' 4 ''d2'')\<rparr>
      else \<lparr>status = NotFound, owner = None, reference = None\<rparr>)"

definition sample_signature :: "string option \<Rightarrow> move_type list" where
  "sample_signature fn =
     (if fn = Some ''f'' then
        [MutableReference (Struct ''0x2'' ''m'' ''SomeStruct'' []), Primitive ''U64'', sample_TxContext]
      else if fn = Some ''g'' then
        [Reference (Struct ''0x2'' ''m'' ''SomeStruct'' []), Primitive ''U64'']
      else [Primitive ''Signer''])"

definition sample_provider :: provider where
  "sample_provider =
     \<lparr>getReferenceGasPrice = Inr 1000,
      getNormalizedMoveFunction = (\<lambda>pkg m fn. Inr (sample_signature fn)),
      getObjectBatch = (\<lambda>ids. Inr (map sample_object ids)),
      getCoins = (\<lambda>who coinType.
        Inr [\<lparr>coinObjectId = ''0xc1'', coin_digest = ''d1'', coin_version = 3\<rparr>,
             \<lparr>coinObjectId = ''0xc2'', coin_digest = ''d2'', coin_version = 4\<rparr>])\<rparr>"

definition sample_env :: env where
  "sample_env =
     \<lparr>provider = Some sample_provider,
      normalizeSuiObjectId = (\<lambda>str. str),
      getIdFromCallArg = sample_getIdFromCallArg,
      isTxContext = (\<lambda>t. t = sample_TxContext),
      getPureSerializationType = sample_getPureSerializationType,
      bcs_ser = sample_bcs_ser,
      extractStructTag = sample_extractStructTag,
      extractMutableReference = sample_extractMutableReference,
      SUI_TYPE_ARG = ''0x2::sui::SUI''\<rparr>"

definition sample_tx :: "transaction_input list \<Rightarrow> command list \<Rightarrow> transaction_data" where
  "sample_tx ins cs =
     \<lparr>sender = Some ''0x5'', gas_price = Some ''1'', gas_budget = Some ''100'',
      gas_payment = Some [SuiObjectRef ''0xc9'' 1 ''d9''], inputs = ins, commands = cs\<rparr>"

text \<open>Sample transactions: the inputs by kind, and a command that takes objects.\<close>

definition object_input :: "nat \<Rightarrow> js_value \<Rightarrow> transaction_input" where
  "object_input i v = \<lparr>input_index = i, input_type = ObjectInput, input_value = v\<rparr>"

definition pure_input :: "nat \<Rightarrow> js_value \<Rightarrow> transaction_input" where
  "pure_input i v = \<lparr>input_index = i, input_type = PureInput, input_value = v\<rparr>"

definition objects_command :: "command_argument list \<Rightarrow> command" where
  "objects_command args = OtherCommand [(Some ObjectEncoding, Array args)]"

text \<open>
  A transaction that declares one of the sender's two coins as an object and one that
  declares both, with the states in which they reach gas payment selection.
\<close>

definition one_coin_tx :: transaction_data where
  "one_coin_tx =
     (sample_tx [object_input 0 (JString ''0xc1'')] [objects_command [Input 0]])
       \<lparr>gas_payment := None\<rparr>"

definition one_coin_state :: run_state where
  "one_coin_state =
     \<lparr>tx = one_coin_tx\<lparr>inputs :=
             [object_input 0 (JCallArg (Object (ImmOrOwned (SuiObjectRef ''0xc1'' 3 ''d1''))))]\<rparr>,
      moveModulesToResolve = [],
      objectsToResolve = [\<lparr>otr_id = ''0xc1'', otr_input = 0, normalizedType = None\<rparr>],
      calls = [GetObjectBatch [''0xc1'']]\<rparr>"

definition both_coins_tx :: transaction_data where
  "both_coins_tx =
     (sample_tx [object_input 0 (JString ''0xc1''), object_input 1 (JString ''0xc2'')]
        [objects_command [Input 0, Input 1]])\<lparr>gas_payment := None\<rparr>"

definition both_coins_state :: run_state where
  "both_coins_state =
     \<lparr>tx = both_coins_tx\<lparr>inputs :=
             [object_input 0 (JCallArg (Object (ImmOrOwned (SuiObjectRef ''0xc1'' 3 ''d1'')))),
              object_input 1 (JCallArg (Object (ImmOrOwned (SuiObjectRef ''0xc2'' 4 ''d2''))))]\<rparr>,
      moveModulesToResolve = [],
      objectsToResolve = [\<lparr>otr_id = ''0xc1'', otr_input = 0, normalizedType = None\<rparr>,
                          \<lparr>otr_id = ''0xc2'', otr_input = 1, normalizedType = None\<rparr>],
      calls = [GetObjectBatch [''0xc1'', ''0xc2'']]\<rparr>"

text \<open>
  A transaction with three object inputs, two of them for the same unknown id, and the
  state in which it reaches object resolution.
\<close>

definition unknown_tx :: transaction_data where
  "unknown_tx =
     sample_tx [object_input 0 (JString ''0xa''), object_input 1 (JString ''0xdead''),
                object_input 2 (JString ''0xdead'')]
       [objects_command [Input 0, Input 1, Input 2]]"

definition unknown_state :: run_state where
  "unknown_state =
     \<lparr>tx = unknown_tx, moveModulesToResolve = [],
      objectsToResolve = [\<lparr>otr_id = ''0xa'', otr_input = 0, normalizedType = None\<rparr>,
                          \<lparr>otr_id = ''0xdead'', otr_input = 1, normalizedType = None\<rparr>,
                          \<lparr>otr_id = ''0xdead'', otr_input = 2, normalizedType = None\<rparr>],
      calls = []\<rparr>"






text \<open>
  The call of the spec's scenario with a number where the object id is expected, and the
  same call with the object passed as an already resolved shared object reference.
\<close>

definition numbers_tx :: transaction_data where
  "numbers_tx =
     sample_tx [pure_input 0 (JNumber 7), pure_input 1 (JNumber 42)]
       [MoveCall ''0x2::m::f'' [Input 0, Input 1]]"

definition resolved_object_tx :: transaction_data where
  "resolved_object_tx =
     sample_tx [object_input 0 (JCallArg (Object (Shared (SharedObjectRef ''0xa'' 5 True)))),
                pure_input 1 (JNumber 42)]
       [MoveCall ''0x2::m::f'' [Input 0, Input 1]]"

text \<open>
  The call of the spec's scenario with one argument only, the state in which it reaches
  signature resolution, and a number passed where a command takes an object.
\<close>

definition one_argument_tx :: transaction_data where
  "one_argument_tx =
     sample_tx [object_input 0 (JString ''0xa'')] [MoveCall ''0x2::m::f'' [Input 0]]"

definition one_argument_state :: run_state where
  "one_argument_state =
     (start_state one_argument_tx)\<lparr>moveModulesToResolve := [(''0x2::m::f'', [Input 0])]\<rparr>"










section \<open>The claims in the words of the spec\<close>



text \<open>The format errors of the spec's taxonomy (section 7).\<close>

definition is_format_error :: "error \<Rightarrow> bool" where
  "is_format_error err =
     (case err of
        IncorrectNumberOfArguments \<Rightarrow> True
      | UnknownCallArgType _ _ \<Rightarrow> True
      | ExpectObjectIdString _ \<Rightarrow> True
      | UnexpectedInputFormat \<Rightarrow> True
      | _ \<Rightarrow> False)"


text \<open>The ids of a batch whose answer is not \<open>Exists\<close>, in the order of the request.\<close>

definition missing_ids :: "string list \<Rightarrow> object_response list \<Rightarrow> string list" where
  "missing_ids ids objects =
     map fst (filter (\<lambda>(ident, obj). status obj \<noteq> Exists) (zip ids objects))"

section \<open>Invariants\<close>

text \<open>
  Every cached nested result is an allocated object and is the \<^verbatim>\<open>NestedResult\<close> of the
  handle's command and of a result index that has the name it is cached under.
\<close>

definition handle_ok :: "transaction_result \<times> heap \<Rightarrow> bool" where
  "handle_ok s =
     (\<forall>k a. nestedResults (fst s) k = Some a \<longrightarrow>
        a < length (snd s)
        \<and> (\<exists>r. snd s ! a = NestedResult (tr_index (fst s)) r \<and> array_slot r = k))"


section \<open>Properties of result handles\<close>

text \<open>The definitions that the evaluation of a key unfolds.\<close>

lemmas number_defs = to_double_def binary_digits.simps Let_def number_string_def shortest_def candidates_def
  level_def string_of_nat.simps digit_char_def exponent_form_def parseInt_def is_js_space_def
  is_digit_def digits_value_def units_def


lemma binary_digits_le: "n < 2 ^ k \<Longrightarrow> binary_digits n \<le> k"
proof (induction n arbitrary: k rule: binary_digits.induct)
  case (1 n)
  show ?case
  proof (cases "n = 0")
    case True
    then show ?thesis by (simp add: binary_digits.simps [of 0])
  next
    case False
    then obtain m where k: "k = Suc m" using 1(2) by (cases k) auto
    have "n div 2 < 2 ^ m" using 1(2) k by auto
    from 1(1) [OF False this] show ?thesis
      using False k by (simp add: binary_digits.simps [of n])
  qed
qed

lemma binary_digits_ge: "0 < n \<Longrightarrow> 2 ^ (binary_digits n - 1) \<le> n"
proof (induction n rule: binary_digits.induct)
  case (1 n)
  have n: "n \<noteq> 0" using 1(2) by simp
  show ?case
  proof (cases "n div 2 = 0")
    case True
    then show ?thesis using n
      by (simp add: binary_digits.simps [of n] binary_digits.simps [of 0])
  next
    case False
    then have "2 ^ (binary_digits (n div 2) - 1) \<le> n div 2" using 1(1) [OF n] by simp
    moreover have "0 < binary_digits (n div 2)"
      using False by (simp add: binary_digits.simps [of "n div 2"])
    ultimately have "2 ^ binary_digits (n div 2) \<le> 2 * (n div 2)"
      by (cases "binary_digits (n div 2)") auto
    then show ?thesis using n by (simp add: binary_digits.simps [of n])
  qed
qed

lemma to_double_small: "n < 2 ^ 53 \<Longrightarrow> to_double n = Some n"
  using binary_digits_le [of n 53] by (simp add: to_double_def)

lemma to_double_safe: "n \<le> 2 ^ 53 \<Longrightarrow> to_double n = Some n"
proof (cases "n < 2 ^ 53")
  case True
  then show ?thesis by (rule to_double_small)
next
  case False
  assume "n \<le> 2 ^ 53"
  with False have "n = 9007199254740992" by simp
  then show ?thesis by (simp add: to_double_def binary_digits.simps Let_def)
qed

lemma to_double_pos:
  assumes "to_double v = Some m" "0 < v"
  shows "0 < m"
proof (cases "binary_digits v \<le> 53")
  case True
  then show ?thesis using assms by (simp add: to_double_def)
next
  case False
  let ?k = "binary_digits v - 53"
  have "2 ^ ?k \<le> (2::nat) ^ (binary_digits v - 1)"
    by (rule power_increasing) auto
  then have "2 ^ ?k \<le> v" using binary_digits_ge [OF assms(2)] by linarith
  then have q: "0 < v div 2 ^ ?k" by (simp add: div_greater_zero_iff)
  show ?thesis
    using assms(1) False q
    by (auto simp: to_double_def Let_def split: if_splits)
qed

lemma of_char_digit_char: "d < 10 \<Longrightarrow> of_char (digit_char d) = 48 + d"
proof -
  assume "d < 10"
  then have "d \<in> {0,1,2,3,4,5,6,7,8,9}" by auto
  then show ?thesis by (auto simp: digit_char_def)
qed

lemma units_string_of_nat_digits: "\<forall>u \<in> set (units (string_of_nat n)). is_digit u"
proof (induction n rule: string_of_nat.induct)
  case (1 n)
  show ?case
  proof (cases "n < 10")
    case True
    then show ?thesis using of_char_digit_char [of n]
      by (simp add: string_of_nat.simps [of n] is_digit_def units_def)
  next
    case False
    then show ?thesis using 1 of_char_digit_char [of "n mod 10"]
      by (simp add: string_of_nat.simps [of n] is_digit_def units_def)
  qed
qed

lemma string_of_nat_nonempty: "string_of_nat n \<noteq> []"
  by (simp add: string_of_nat.simps [of n])

lemma hd_string_of_nat: "\<exists>d < 10. hd (string_of_nat n) = digit_char d"
proof (induction n rule: string_of_nat.induct)
  case (1 n)
  show ?case
  proof (cases "n < 10")
    case True
    then show ?thesis by (auto simp add: string_of_nat.simps [of n])
  next
    case False
    then show ?thesis using 1 string_of_nat_nonempty [of "n div 10"]
      by (simp add: string_of_nat.simps [of n])
  qed
qed

lemma digits_value_snoc: "digits_value (ds @ [u]) = digits_value ds * 10 + (u - 48)"
  by (simp add: digits_value_def)

lemma digits_value_string_of_nat: "digits_value (units (string_of_nat n)) = n"
proof (induction n rule: string_of_nat.induct)
  case (1 n)
  show ?case
  proof (cases "n < 10")
    case True
    then show ?thesis using of_char_digit_char [of n]
      by (simp add: string_of_nat.simps [of n] digits_value_def units_def)
  next
    case False
    have "units (string_of_nat n) = units (string_of_nat (n div 10)) @ [48 + n mod 10]"
      using False of_char_digit_char [of "n mod 10"]
      by (simp add: string_of_nat.simps [of n] units_def)
    then show ?thesis using 1 False by (simp add: digits_value_snoc)
  qed
qed

lemma digit_not_space: "is_digit u \<Longrightarrow> \<not> is_js_space u \<and> u \<noteq> 45 \<and> u \<noteq> 43"
  by (auto simp: is_digit_def is_js_space_def)

lemma parseInt_digits:
  assumes ne: "ds \<noteq> []" and dg: "\<forall>u \<in> set ds. is_digit u"
  shows "parseInt ds = (case to_double (digits_value ds) of
                          None \<Rightarrow> Infinity False | Some m \<Rightarrow> Finite False m)"
    and "parseInt (45 # ds) = (case to_double (digits_value ds) of
                          None \<Rightarrow> Infinity True | Some m \<Rightarrow> Finite True m)"
proof -
  obtain u us where c: "ds = u # us" using ne by (cases ds) auto
  have u: "is_digit u" using dg c by simp
  have sp: "dropWhile is_js_space ds = ds" using digit_not_space [OF u] c by simp
  have tw: "takeWhile is_digit ds = ds" using dg by (simp add: takeWhile_eq_all_conv)
  have sg: "hd ds \<noteq> 45" "hd ds \<noteq> 43" using digit_not_space [OF u] c by simp_all
  show "parseInt ds = (case to_double (digits_value ds) of
                          None \<Rightarrow> Infinity False | Some m \<Rightarrow> Finite False m)"
    unfolding parseInt_def Let_def sp by (simp add: tw sg ne split: option.splits)
  have sp': "dropWhile is_js_space (45 # ds) = 45 # ds" by (simp add: is_js_space_def)
  show "parseInt (45 # ds) = (case to_double (digits_value ds) of
                          None \<Rightarrow> Infinity True | Some m \<Rightarrow> Finite True m)"
    unfolding parseInt_def Let_def sp' by (simp add: tw ne split: option.splits)
qed

lemma units_nonempty: "units (string_of_nat n) \<noteq> []"
  using string_of_nat_nonempty [of n] by (simp add: units_def)

lemma parseInt_decimal:
  "parseInt (units (string_of_nat v)) =
     (case to_double v of None \<Rightarrow> Infinity False | Some m \<Rightarrow> Finite False m)"
  using parseInt_digits(1) [OF units_nonempty units_string_of_nat_digits, of v]
  by (simp add: digits_value_string_of_nat)

lemma parseInt_minus_decimal:
  "parseInt (units (CHR ''-'' # string_of_nat v)) =
     (case to_double v of None \<Rightarrow> Infinity True | Some m \<Rightarrow> Finite True m)"
proof -
  have "units (CHR ''-'' # string_of_nat v) = 45 # units (string_of_nat v)"
    by (simp add: units_def)
  then show ?thesis
    using parseInt_digits(2) [OF units_nonempty units_string_of_nat_digits, of v]
    by (simp add: digits_value_string_of_nat)
qed

text \<open>No property of the base result reads as a number.\<close>

lemma in_target_parseInt: "in_target (StringKey p) \<Longrightarrow> parseInt p = NaN"
  by (auto simp: in_target_def object_prototype_keys_def parseInt_def is_js_space_def
      is_digit_def units_def)

text \<open>The decimal digits of a number.\<close>

lemma length_string_of_nat: "0 < k \<Longrightarrow> i < 10 ^ k \<Longrightarrow> length (string_of_nat i) \<le> k"
proof (induction i arbitrary: k rule: string_of_nat.induct)
  case (1 n)
  show ?case
  proof (cases "n < 10")
    case True
    then show ?thesis using 1(2) by (simp add: string_of_nat.simps [of n])
  next
    case False
    obtain m where k: "k = Suc m" using 1(2) by (cases k) auto
    have m: "0 < m" using False 1(3) k by (cases m) auto
    have "n div 10 < 10 ^ m" using 1(3) k by (simp add: less_mult_imp_div_less mult.commute)
    from 1(1) [OF False m this] show ?thesis
      using False k by (simp add: string_of_nat.simps [of n])
  qed
qed

lemma less_power_length: "n < 10 ^ length (string_of_nat n)"
proof (induction n rule: string_of_nat.induct)
  case (1 n)
  show ?case
  proof (cases "n < 10")
    case True
    then show ?thesis by (simp add: string_of_nat.simps [of n])
  next
    case False
    from 1 [OF False] have "n div 10 < 10 ^ length (string_of_nat (n div 10))" .
    then have "n < 10 * 10 ^ length (string_of_nat (n div 10))" by linarith
    then show ?thesis using False by (simp add: string_of_nat.simps [of n])
  qed
qed

lemma level_set: "set (level x p) = {x div p * p, x div p * p + p}"
  by (auto simp: level_def Let_def)

lemma candidates_le:
  assumes "v \<in> set (candidates x)"
  shows "v \<le> 10 ^ length (string_of_nat x)"
proof -
  let ?n = "length (string_of_nat x)"
  from assms obtain j where j: "j < ?n" and v: "v \<in> set (level x (10 ^ j))"
    by (auto simp: candidates_def)
  let ?p = "(10::nat) ^ j"
  have split: "(10::nat) ^ ?n = 10 ^ (?n - j) * ?p"
    using j by (simp add: power_add [symmetric])
  have "x < 10 ^ (?n - j) * ?p" using less_power_length [of x] split by simp
  then have "x div ?p < 10 ^ (?n - j)" by (simp add: less_mult_imp_div_less)
  then have "x div ?p + 1 \<le> 10 ^ (?n - j)" by simp
  then have "(x div ?p + 1) * ?p \<le> 10 ^ (?n - j) * ?p" by (rule mult_le_mono1)
  then have hi: "x div ?p * ?p + ?p \<le> 10 ^ ?n" using split by (simp add: algebra_simps)
  from v have "v = x div ?p * ?p \<or> v = x div ?p * ?p + ?p" by (simp add: level_set)
  then show ?thesis using hi by auto
qed

lemma shortest_reads_back: "to_double x = Some x \<Longrightarrow> to_double (shortest x) = Some x"
  by (auto simp: shortest_def find_Some_iff split: option.splits)

lemma to_double_1e21: "to_double (10 ^ 21) = Some (10 ^ 21)"
  by (simp add: to_double_def binary_digits.simps Let_def)

lemma shortest_below:
  assumes d: "to_double x = Some x" and b: "x < 10 ^ 21"
  shows "shortest x < 10 ^ 21"
proof (cases "find (\<lambda>v. to_double v = Some x) (candidates x)")
  case None
  then show ?thesis using b by (simp add: shortest_def)
next
  case (Some v)
  then have v: "v \<in> set (candidates x)" and r: "to_double v = Some x"
    by (auto simp: find_Some_iff)
  have "length (string_of_nat x) \<le> 21" using length_string_of_nat [of 21 x] b by simp
  then have "(10::nat) ^ length (string_of_nat x) \<le> 10 ^ 21" by (rule power_increasing) simp
  then have le: "v \<le> 10 ^ 21" using candidates_le [OF v] by simp
  have "v \<noteq> 10 ^ 21" using r to_double_1e21 b by auto
  then show ?thesis using le Some by (simp add: shortest_def)
qed

lemma shortest_pos: "0 < x \<Longrightarrow> 0 < shortest x"
proof (cases "find (\<lambda>v. to_double v = Some x) (candidates x)")
  case None
  assume "0 < x" then show ?thesis using None by (simp add: shortest_def)
next
  case (Some v)
  assume x: "0 < x"
  from Some have r: "to_double v = Some x" by (auto simp: find_Some_iff)
  have "v \<noteq> 0" using r x to_double_small [of 0] by (cases "v = 0") auto
  then show ?thesis using Some by (simp add: shortest_def)
qed

text \<open>
  The key of a number below \<open>10 ^ 21\<close> is a decimal numeral that reads back as the number.
\<close>

lemma number_string_below:
  assumes "to_double x = Some x" "x < 10 ^ 21"
  shows "number_string x = string_of_nat (shortest x)"
  using length_string_of_nat [of 21 "shortest x"] shortest_below [OF assms]
  by (simp add: number_string_def)

lemma parseInt_number_key:
  assumes "to_double x = Some x" "x < 10 ^ 21"
  shows "parseInt (units (number_string x)) = Finite False x"
  using shortest_reads_back [OF assms(1)]
  by (simp add: number_string_below [OF assms] parseInt_decimal)

lemma get_number_key:
  assumes "to_double x = Some x" "x < 10 ^ 21"
  shows "get (number_key x) s =
           (case nestedResultFor (Finite False x) s of (a, s') \<Rightarrow> (ObjectAt a, s'))"
proof -
  note p = parseInt_number_key [OF assms]
  have "\<not> in_target (number_key x)"
    using in_target_parseInt [of "units (number_string x)"] p by (auto simp: number_key_def)
  then show ?thesis using p by (simp add: get_def number_key_def less_zero_def)
qed

text \<open>
  The key of a negative number reads back as a negative number in either form: in exponent
  form \<^verbatim>\<open>parseInt\<close> stops after the first digit, which is not zero.
\<close>

lemma hd_string_of_nat_pos:
  "0 < n \<Longrightarrow> \<exists>d. 0 < d \<and> d < 10 \<and> hd (string_of_nat n) = digit_char d"
proof (induction n rule: string_of_nat.induct)
  case (1 n)
  show ?case
  proof (cases "n < 10")
    case True
    then show ?thesis using 1(2) by (auto simp add: string_of_nat.simps [of n])
  next
    case False
    then have "0 < n div 10" by (simp add: div_greater_zero_iff)
    from 1(1) [OF False this] show ?thesis
      using False string_of_nat_nonempty [of "n div 10"]
      by (simp add: string_of_nat.simps [of n])
  qed
qed

lemma exponent_form_shape:
  assumes "0 < n"
  shows "\<exists>d c rest. 0 < d \<and> d < 10 \<and> \<not> is_digit (of_char c)
            \<and> exponent_form (string_of_nat n) = digit_char d # c # rest"
proof -
  let ?ds = "string_of_nat n"
  obtain d where d: "0 < d" "d < 10" "hd ?ds = digit_char d"
    using hd_string_of_nat_pos [OF assms] by blast
  obtain t where t: "?ds = digit_char d # t"
    using d(3) string_of_nat_nonempty [of n] by (cases ?ds) auto
  have nz: "digit_char d \<noteq> CHR ''0''"
  proof -
    from d have "d \<in> {1,2,3,4,5,6,7,8,9}" by auto
    then show ?thesis by (auto simp: digit_char_def)
  qed
  let ?s = "rev (dropWhile (\<lambda>c. c = CHR ''0'') (rev ?ds))"
  have "?s = digit_char d # rev (dropWhile (\<lambda>c. c = CHR ''0'') (rev t))"
    using nz by (simp add: t dropWhile_append)
  then have hs: "hd ?s = digit_char d" by simp
  have nd: "\<not> is_digit (of_char CHR ''.'')" "\<not> is_digit (of_char CHR ''e'')"
    by (simp_all add: is_digit_def)
  show ?thesis
    using d(1,2) hs nd unfolding exponent_form_def Let_def
    by (cases "tl ?s = []") auto
qed

lemma parseInt_digit_stop:
  assumes "d < 10" "\<not> is_digit (of_char c)"
  shows "parseInt (units (CHR ''-'' # digit_char d # c # rest)) = Finite True d"
proof -
  have dg: "is_digit (48 + d)" using assms(1) by (simp add: is_digit_def)
  have "d < 2 ^ 53" using assms(1) by simp
  then have td: "to_double d = Some d" by (rule to_double_small)
  show ?thesis
    unfolding parseInt_def Let_def units_def
    using dg assms(2) of_char_digit_char [OF assms(1)] td
    by (simp add: is_js_space_def digits_value_def)
qed

lemma parseInt_negative_number:
  assumes "0 < n"
  shows "less_zero (parseInt (units (CHR ''-'' # number_string n)))"
proof (cases "length (string_of_nat (shortest n)) \<le> 21")
  case True
  have v: "0 < shortest n" by (rule shortest_pos [OF assms])
  show ?thesis
  proof (cases "to_double (shortest n)")
    case None
    then show ?thesis using True
      by (simp add: number_string_def parseInt_minus_decimal less_zero_def)
  next
    case (Some m)
    then show ?thesis using True to_double_pos [OF Some v]
      by (simp add: number_string_def parseInt_minus_decimal less_zero_def)
  qed
next
  case False
  obtain d c rest where s: "0 < d" "d < 10" "\<not> is_digit (of_char c)"
      "exponent_form (string_of_nat (shortest n)) = digit_char d # c # rest"
    using exponent_form_shape [OF shortest_pos [OF assms]] by blast
  show ?thesis using False s parseInt_digit_stop [OF s(2,3), of rest]
    by (simp add: number_string_def less_zero_def)
qed

lemma get_less_zero:
  assumes "less_zero (parseInt p)"
  shows "get (StringKey p) s = (Undefined, s)"
proof -
  have "\<not> in_target (StringKey p)"
    using in_target_parseInt [of p] assms by (auto simp: less_zero_def)
  then show ?thesis using assms by (simp add: get_def)
qed

lemma get_negative_number_key:
  "0 < n \<Longrightarrow> get (negative_number_key n) s = (Undefined, s)"
  unfolding negative_number_key_def by (rule get_less_zero [OF parseInt_negative_number])

lemma handle_ok_nestedResultFor:
  "handle_ok s \<Longrightarrow> handle_ok (snd (nestedResultFor n s))"
  by (cases s) (fastforce simp: handle_ok_def nestedResultFor_def nth_append less_Suc_eq split: option.splits)

lemma tr_index_nestedResultFor [simp]:
  "tr_index (fst (snd (nestedResultFor n s))) = tr_index (fst s)"
  by (cases s) (auto simp: nestedResultFor_def split: option.splits)

lemma get_state_cases:
  "snd (get k s) = s \<or> (\<exists>n. snd (get k s) = snd (nestedResultFor n s))"
proof (cases "\<exists>n a s'. get k s = (ObjectAt a, s') \<and> nestedResultFor n s = (a, s')")
  case True
  then show ?thesis by (metis snd_conv)
next
  case False
  then have "snd (get k s) = s"
    by (auto simp: get_def Let_def split: property_key.splits prod.splits)
  then show ?thesis by simp
qed

lemma handle_ok_get: "handle_ok s \<Longrightarrow> handle_ok (snd (get k s))"
  using get_state_cases [of k s] handle_ok_nestedResultFor by metis

lemma tr_index_get [simp]: "tr_index (fst (snd (get k s))) = tr_index (fst s)"
  using get_state_cases [of k s] tr_index_nestedResultFor by metis

lemma handle_ok_gets: "handle_ok s \<Longrightarrow> handle_ok (gets ks s)"
  by (induction ks arbitrary: s) (auto simp: handle_ok_get)

lemma tr_index_gets [simp]: "tr_index (fst (gets ks s)) = tr_index (fst s)"
  by (induction ks arbitrary: s) auto

lemma handle_ok_create: "handle_ok (createTransactionResult idx, h)"
  by (simp add: handle_ok_def createTransactionResult_def)

lemma cached_nestedResultFor:
  "nestedResults (fst s) n = Some a \<Longrightarrow> nestedResults (fst (snd (nestedResultFor m s))) n = Some a"
  by (cases s) (auto simp: nestedResultFor_def split: option.splits)

lemma cached_get:
  "nestedResults (fst s) n = Some a \<Longrightarrow> nestedResults (fst (snd (get k s))) n = Some a"
  using get_state_cases [of k s] cached_nestedResultFor by metis

lemma cached_gets:
  "nestedResults (fst s) n = Some a \<Longrightarrow> nestedResults (fst (gets ks s)) n = Some a"
  by (induction ks arbitrary: s) (auto simp: cached_get)

lemma heap_nestedResultFor:
  "a < length (snd s) \<Longrightarrow>
   a < length (snd (snd (nestedResultFor m s))) \<and> snd (snd (nestedResultFor m s)) ! a = snd s ! a"
  by (cases s) (auto simp: nestedResultFor_def nth_append split: option.splits)

lemma heap_get:
  "a < length (snd s) \<Longrightarrow>
   a < length (snd (snd (get k s))) \<and> snd (snd (get k s)) ! a = snd s ! a"
  using get_state_cases [of k s] heap_nestedResultFor by metis

lemma heap_gets:
  "a < length (snd s) \<Longrightarrow> a < length (snd (gets ks s)) \<and> snd (gets ks s) ! a = snd s ! a"
proof (induction ks arbitrary: s)
  case Nil
  then show ?case by simp
next
  case (Cons k ks)
  from heap_get [OF Cons.prems, of k] Cons.IH [of "snd (get k s)"]
  show ?case by simp
qed

lemma nestedResultFor_caches:
  "nestedResultFor n s = (a, s') \<Longrightarrow> nestedResults (fst s') (array_slot n) = Some a"
  by (cases s) (auto simp: nestedResultFor_def split: option.splits)

lemma nestedResultFor_cached:
  "nestedResults (fst s) (array_slot n) = Some a \<Longrightarrow> nestedResultFor n s = (a, s)"
  by (cases s) (auto simp: nestedResultFor_def)

lemma baseResult_nestedResultFor [simp]:
  "baseResult (fst (snd (nestedResultFor n s))) = baseResult (fst s)"
  by (cases s) (auto simp: nestedResultFor_def split: option.splits)

lemma baseResult_get [simp]: "baseResult (fst (snd (get k s))) = baseResult (fst s)"
  using get_state_cases [of k s] baseResult_nestedResultFor by metis

lemma baseResult_gets [simp]: "baseResult (fst (gets ks s)) = baseResult (fst s)"
  by (induction ks arbitrary: s) auto

lemma array_slot_index: "array_slot r = Finite False i \<Longrightarrow> r = Finite False i \<or> (i = 0 \<and> r = Finite True 0)"
  by (auto simp: array_slot_def split: if_splits)

lemma get_twice:
  assumes ok: "handle_ok s" and d: "to_double i = Some i" and i: "i < 10 ^ 21"
  shows "\<exists>a s1 r. get (number_key i) s = (ObjectAt a, s1)
           \<and> a < length (snd s1) \<and> snd s1 ! a = NestedResult (tr_index (fst s)) r
           \<and> (r = Finite False i \<or> (i = 0 \<and> r = Finite True 0))
           \<and> get (number_key i) s1 = (ObjectAt a, s1)
           \<and> fst (get (number_key i) (gets ks s1)) = ObjectAt a
           \<and> snd (gets ks s1) ! a = NestedResult (tr_index (fst s)) r
           \<and> (to_double j = Some j \<and> j < 10 ^ 21 \<and> j \<noteq> i \<longrightarrow>
                fst (get (number_key j) (gets ks s1)) \<noteq> ObjectAt a)"
proof -
  note gi = get_number_key [OF d i]
  have sl: "array_slot (Finite False n) = Finite False n" for n by (simp add: array_slot_def)
  obtain a s1 where n: "nestedResultFor (Finite False i) s = (a, s1)"
    by (cases "nestedResultFor (Finite False i) s")
  have g: "get (number_key i) s = (ObjectAt a, s1)" by (simp add: gi n)
  have c1: "nestedResults (fst s1) (Finite False i) = Some a"
    using nestedResultFor_caches [OF n] by (simp add: sl)
  have ok1: "handle_ok s1" using handle_ok_nestedResultFor [OF ok, of "Finite False i"] n by simp
  have ix: "tr_index (fst s1) = tr_index (fst s)"
    using tr_index_nestedResultFor [of "Finite False i" s] n by simp
  from ok1 c1 ix obtain r where h1: "a < length (snd s1)"
      "snd s1 ! a = NestedResult (tr_index (fst s)) r" and ar: "array_slot r = Finite False i"
    by (auto simp: handle_ok_def)
  have rr: "r = Finite False i \<or> (i = 0 \<and> r = Finite True 0)" by (rule array_slot_index [OF ar])
  have g1: "get (number_key i) s1 = (ObjectAt a, s1)"
    using nestedResultFor_cached [of s1 "Finite False i" a] c1 by (simp add: gi sl)
  let ?s2 = "gets ks s1"
  have c2: "nestedResults (fst ?s2) (Finite False i) = Some a" by (rule cached_gets [OF c1])
  have g2: "fst (get (number_key i) ?s2) = ObjectAt a"
    using nestedResultFor_cached [of ?s2 "Finite False i" a] c2 by (simp add: gi sl)
  have h2: "snd ?s2 ! a = NestedResult (tr_index (fst s)) r"
    using heap_gets [OF h1(1), of ks] h1(2) by simp
  have ok2: "handle_ok ?s2" by (rule handle_ok_gets [OF ok1])
  have dd: "fst (get (number_key j) ?s2) \<noteq> ObjectAt a"
    if dj: "to_double j = Some j" and j: "j < 10 ^ 21" and ji: "j \<noteq> i"
  proof
    assume e: "fst (get (number_key j) ?s2) = ObjectAt a"
    obtain b s3 where m: "nestedResultFor (Finite False j) ?s2 = (b, s3)"
      by (cases "nestedResultFor (Finite False j) ?s2")
    from e m have ba: "b = a" by (simp add: get_number_key [OF dj j])
    have cj: "nestedResults (fst s3) (Finite False j) = Some a"
      using nestedResultFor_caches [OF m] ba by (simp add: sl)
    have ci: "nestedResults (fst s3) (Finite False i) = Some a"
      using cached_nestedResultFor [OF c2, of "Finite False j"] m by simp
    have ok3: "handle_ok s3"
      using handle_ok_nestedResultFor [OF ok2, of "Finite False j"] m by simp
    from ok3 cj obtain r1 where 1: "snd s3 ! a = NestedResult (tr_index (fst s3)) r1"
        "array_slot r1 = Finite False j"
      unfolding handle_ok_def by blast
    from ok3 ci obtain r2 where 2: "snd s3 ! a = NestedResult (tr_index (fst s3)) r2"
        "array_slot r2 = Finite False i"
      unfolding handle_ok_def by blast
    from 1 2 have "Finite False j = Finite False i" by simp
    with ji show False by simp
  qed
  show ?thesis using g h1 rr g1 g2 h2 dd by blast
qed

text \<open>
  Three evaluations of the definitions: from \<open>2 ^ 53\<close> on a key is read as the nearest
  double, so that two keys can name one nested result; a number is printed with the fewest
  digits that identify it, and its key reads back as the number; and the no-break space is
  white space.
\<close>

lemma rounded_keys_share_slot:
  "parseInt (units ''9007199254740993'') = Finite False 9007199254740992
   \<and> parseInt (units ''9007199254740992'') = Finite False 9007199254740992"
  by (simp add: number_defs)

lemma number_string_2_64:
  "to_double 18446744073709551616 = Some 18446744073709551616
   \<and> number_string 18446744073709551616 = ''18446744073709552000''
   \<and> parseInt (units ''18446744073709552000'') = Finite False 18446744073709551616"
proof -
  have d: "to_double 18446744073709551616 = Some 18446744073709551616"
    by (simp add: to_double_def binary_digits.simps Let_def)
  have s: "number_string 18446744073709551616 = ''18446744073709552000''"
    by (simp add: number_defs upt_rec)
  have "18446744073709551616 < (10::nat) ^ 21" by simp
  from parseInt_number_key [OF d this] s d show ?thesis by simp
qed

lemma no_break_space_skipped: "parseInt (0xA0 # units ''5'') = Finite False 5"
  by (simp add: number_defs)

text \<open>
  Claim C9, amended. Let a handle be the one \<^verbatim>\<open>add\<close> returns for a command, after any reads
  \<open>ks\<close>, and let \<open>i\<close> be a number (an integer that is a double) below \<open>10 ^ 21\<close>. Reading
  nested result \<open>i\<close> returns an object that is the \<^verbatim>\<open>NestedResult\<close> of the command's position
  and of the result index \<open>i\<close> (for \<open>i = 0\<close> the index is \<^verbatim>\<open>0\<close> or \<^verbatim>\<open>-0\<close>, which are equal
  numbers, and it is \<^verbatim>\<open>0\<close> when nothing was read before); reading \<open>i\<close> again, at once or
  after any further reads \<open>ks'\<close>, returns the same object, unchanged; reading any other
  number \<open>j\<close> below \<open>10 ^ 21\<close> returns a different object; and the handle's own \<^verbatim>\<open>kind\<close> and
  \<^verbatim>\<open>index\<close> are those of \<^verbatim>\<open>Result\<close> of the command's position.
\<close>

theorem nested_result_identity_stable:
  assumes "to_double i = Some i" and "i < 10 ^ 21"
  shows
  "\<exists>a s1 r. get (number_key i) (gets ks (fst (Transaction_add c td), h0)) = (ObjectAt a, s1)
     \<and> a < length (snd s1) \<and> snd s1 ! a = NestedResult (length (commands td)) r
     \<and> (r = Finite False i \<or> (i = 0 \<and> r = Finite True 0))
     \<and> (ks = [] \<longrightarrow> r = Finite False i)
     \<and> get (number_key i) s1 = (ObjectAt a, s1)
     \<and> fst (get (number_key i) (gets ks' s1)) = ObjectAt a
     \<and> snd (gets ks' s1) ! a = NestedResult (length (commands td)) r
     \<and> (to_double j = Some j \<and> j < 10 ^ 21 \<and> j \<noteq> i \<longrightarrow>
          fst (get (number_key j) (gets ks' s1)) \<noteq> ObjectAt a)
     \<and> baseResult (fst (gets ks (fst (Transaction_add c td), h0))) = Result (length (commands td))
     \<and> get (StringKey (units ''kind'')) (gets ks (fst (Transaction_add c td), h0))
         = (StringValue ''Result'', gets ks (fst (Transaction_add c td), h0))
     \<and> get (StringKey (units ''index'')) (gets ks (fst (Transaction_add c td), h0))
         = (NumberValue (length (commands td)), gets ks (fst (Transaction_add c td), h0))"
proof -
  let ?r = "createTransactionResult (length (commands td))"
  let ?s = "gets ks (?r, h0)"
  have a: "fst (Transaction_add c td) = ?r" by (simp add: Transaction_add_def Let_def)
  have ok: "handle_ok ?s" by (rule handle_ok_gets [OF handle_ok_create])
  have ix: "tr_index (fst ?s) = length (commands td)" by (simp add: createTransactionResult_def)
  have b: "baseResult (fst ?s) = Result (length (commands td))"
    by (simp add: createTransactionResult_def)
  have k: "get (StringKey (units ''kind'')) ?s = (StringValue ''Result'', ?s)"
    using b by (simp add: get_def in_target_def Reflect_get_def kind_name_def)
  have n: "get (StringKey (units ''index'')) ?s = (NumberValue (length (commands td)), ?s)"
    using ix by (simp add: get_def in_target_def Reflect_get_def units_def)
  from get_twice [OF ok assms, of ks' j] obtain a1 s1 r where
    g: "get (number_key i) ?s = (ObjectAt a1, s1)"
    and h: "a1 < length (snd s1)" "snd s1 ! a1 = NestedResult (tr_index (fst ?s)) r"
    and rr: "r = Finite False i \<or> (i = 0 \<and> r = Finite True 0)"
    and g1: "get (number_key i) s1 = (ObjectAt a1, s1)"
    and g2: "fst (get (number_key i) (gets ks' s1)) = ObjectAt a1"
    and h2: "snd (gets ks' s1) ! a1 = NestedResult (tr_index (fst ?s)) r"
    and d: "to_double j = Some j \<and> j < 10 ^ 21 \<and> j \<noteq> i \<longrightarrow>
              fst (get (number_key j) (gets ks' s1)) \<noteq> ObjectAt a1"
    by blast
  have fresh: "r = Finite False i" if "ks = []"
  proof -
    have "get (number_key i) (?r, h0)
            = (ObjectAt (length h0),
               ?r\<lparr>nestedResults := (nestedResults ?r)(Finite False i \<mapsto> length h0)\<rparr>,
               h0 @ [NestedResult (length (commands td)) (Finite False i)])"
      by (simp add: get_number_key [OF assms] nestedResultFor_def createTransactionResult_def
          array_slot_def)
    with g h(2) that show ?thesis by auto
  qed
  show ?thesis
    unfolding a using g h rr fresh g1 g2 h2 d ix b k n by auto
qed

theorem nested_result_identity_stable_witness:
  "to_double 2 = Some 2 \<and> (2::nat) < 10 ^ 21
   \<and> (\<exists>a s1. get (number_key 2) (gets [number_key 0, StringKey (units ''kind'')]
               (fst (Transaction_add OpaqueCommand
                  \<lparr>sender = None, gas_price = None, gas_budget = None, gas_payment = None,
                   inputs = [], commands = [OpaqueCommand]\<rparr>), [])) = (ObjectAt a, s1)
     \<and> snd s1 ! a = NestedResult 1 (Finite False 2)
     \<and> get (number_key 2) s1 = (ObjectAt a, s1)
     \<and> to_double 3 = Some 3 \<and> (3::nat) < 10 ^ 21 \<and> (3::nat) \<noteq> 2
     \<and> fst (get (number_key 3) (gets [number_key 5] s1)) \<noteq> ObjectAt a)"
proof -
  have i: "to_double 2 = Some 2" "(2::nat) < 10 ^ 21"
    and j: "to_double 3 = Some 3" "(3::nat) < 10 ^ 21"
    by (simp_all add: to_double_small)
  from nested_result_identity_stable [OF i, of "[number_key 0, StringKey (units ''kind'')]"
      OpaqueCommand
      "\<lparr>sender = None, gas_price = None, gas_budget = None, gas_payment = None,
        inputs = [], commands = [OpaqueCommand]\<rparr>" "[]" "[number_key 5]" 3] i j
  show ?thesis by auto
qed

text \<open>
  Claim C9 as stated fails at the index \<open>10 ^ 21\<close>, which is a double. Its key is
  \<^verbatim>\<open>1e+21\<close>, which \<^verbatim>\<open>parseInt\<close> reads as 1: on a handle whose nested result 1 has been read,
  reading nested result \<open>10 ^ 21\<close> returns that same object, the \<^verbatim>\<open>NestedResult\<close> of result
  index 1.
\<close>

theorem exponent_key_counterexample:
  "to_double 1000000000000000000000 = Some 1000000000000000000000
   \<and> number_key 1000000000000000000000 = StringKey (units ''1e+21'')
   \<and> (1000000000000000000000::nat) \<noteq> 1
   \<and> fst (get (number_key 1) (createTransactionResult 0, [])) = ObjectAt 0
   \<and> fst (get (number_key 1000000000000000000000)
             (snd (get (number_key 1) (createTransactionResult 0, [])))) = ObjectAt 0
   \<and> snd (snd (get (number_key 1000000000000000000000)
             (snd (get (number_key 1) (createTransactionResult 0, [])))))
       = [NestedResult 0 (Finite False 1)]"
proof -
  have d: "to_double 1000000000000000000000 = Some 1000000000000000000000"
    using to_double_1e21 by simp
  have k: "number_key 1000000000000000000000 = StringKey (units ''1e+21'')"
    by (simp add: number_key_def number_defs upt_rec)
  have k1: "number_key 1 = StringKey (units ''1'')"
    by (simp add: number_key_def number_defs upt_rec)
  have p: "parseInt (units ''1e+21'') = Finite False 1" "parseInt (units ''1'') = Finite False 1"
    by (simp_all add: number_defs)
  have t: "\<not> in_target (StringKey (units ''1e+21''))" "\<not> in_target (StringKey (units ''1''))"
    using in_target_parseInt p by auto
  show ?thesis
    unfolding k k1
    by (simp add: d get_def p t less_zero_def nestedResultFor_def createTransactionResult_def
        array_slot_def Let_def)
qed

text \<open>
  Claim C10, amended. The key of a negative number, any string key that reads as a number
  below zero, a string key that is not a property of the base result and does not read as a
  number, and a symbol other than the iterator all yield \<^verbatim>\<open>undefined\<close> and leave the handle
  as it was. A key that is a property of the base result (\<^verbatim>\<open>kind\<close>, \<^verbatim>\<open>index\<close>, or one inherited
  from \<^verbatim>\<open>Object.prototype\<close>) yields that property, never a nested result. Setting a property
  throws, whatever the key and the value.
\<close>

theorem get_without_nested_result:
  "get (negative_number_key (Suc n)) s = (Undefined, s)
   \<and> (less_zero (parseInt p) \<longrightarrow> get (StringKey p) s = (Undefined, s))
   \<and> (\<not> in_target (StringKey p) \<and> parseInt p = NaN \<longrightarrow> get (StringKey p) s = (Undefined, s))
   \<and> get (OtherSymbol nm) s = (Undefined, s)
   \<and> (in_target k \<longrightarrow> get k s = (Reflect_get (fst s) k, s) \<and> (\<forall>a. Reflect_get (fst s) k \<noteq> ObjectAt a))
   \<and> set_property k v s = Inl ProxySetNotSupported"
proof -
  have 1: "get (negative_number_key (Suc n)) s = (Undefined, s)"
    by (rule get_negative_number_key) simp
  have 2: "\<not> in_target (StringKey p) \<and> parseInt p = NaN \<longrightarrow> get (StringKey p) s = (Undefined, s)"
    by (simp add: get_def)
  have 3: "get (OtherSymbol nm) s = (Undefined, s)"
    by (simp add: get_def in_target_def)
  have 4: "in_target k \<longrightarrow> get k s = (Reflect_get (fst s) k, s) \<and> (\<forall>a. Reflect_get (fst s) k \<noteq> ObjectAt a)"
    by (auto simp: get_def Reflect_get_def in_target_def split: property_key.splits)
  show ?thesis using 1 2 3 4 get_less_zero by (simp add: set_property_def)
qed

theorem get_without_nested_result_witness:
  "get (negative_number_key (Suc 0)) (createTransactionResult 4, []) = (Undefined, createTransactionResult 4, [])
   \<and> less_zero (parseInt (units ''-7.5''))
   \<and> get (StringKey (units ''-7.5'')) (createTransactionResult 4, []) = (Undefined, createTransactionResult 4, [])
   \<and> \<not> in_target (StringKey (units ''first'')) \<and> parseInt (units ''first'') = NaN
   \<and> get (StringKey (units ''first'')) (createTransactionResult 4, []) = (Undefined, createTransactionResult 4, [])
   \<and> in_target (StringKey (units ''index''))
   \<and> get (StringKey (units ''index'')) (createTransactionResult 4, []) = (NumberValue 4, createTransactionResult 4, [])"
proof -
  let ?s = "(createTransactionResult 4, [])"
  have a: "\<not> in_target (StringKey (units ''first''))"
    by (simp add: in_target_def object_prototype_keys_def units_def)
  have b: "parseInt (units ''first'') = NaN" by (simp add: number_defs)
  have c: "in_target (StringKey (units ''index''))" by (simp add: in_target_def)
  have d: "Reflect_get (createTransactionResult 4) (StringKey (units ''index'')) = NumberValue 4"
    by (simp add: Reflect_get_def createTransactionResult_def units_def)
  have n: "less_zero (parseInt (units ''-7.5''))" by (simp add: number_defs less_zero_def)
  note t1 = get_without_nested_result [of 0 ?s "units ''-7.5''" "''tag''"
      "StringKey (units ''index'')" "0::nat"]
  note t2 = get_without_nested_result [of 0 ?s "units ''first''" "''tag''"
      "StringKey (units ''index'')" "0::nat"]
  have 1: "get (negative_number_key (Suc 0)) ?s = (Undefined, ?s)" using t1 by blast
  have 2: "get (StringKey (units ''-7.5'')) ?s = (Undefined, ?s)" using t1 n by blast
  have 3: "get (StringKey (units ''first'')) ?s = (Undefined, ?s)" using t2 a b by blast
  have 4: "get (StringKey (units ''index'')) ?s = (NumberValue 4, ?s)" using t2 c d by simp
  show ?thesis using 1 n 2 a b 3 c 4 by blast
qed

text \<open>
  Claim C10 as stated fails: the key \<^verbatim>\<open>kind\<close> does not read as a number, and reading it
  yields the string \<^verbatim>\<open>Result\<close>, not \<^verbatim>\<open>undefined\<close>.
\<close>

theorem non_numeric_key_counterexample:
  "parseInt (units ''kind'') = NaN
   \<and> fst (get (StringKey (units ''kind'')) (createTransactionResult 0, [])) \<noteq> Undefined"
  by (simp add: number_defs get_def in_target_def Reflect_get_def createTransactionResult_def kind_name_def)

section \<open>Properties of the input registry\<close>

lemma findIndex_Some:
  "findIndex P xs = Some i \<Longrightarrow> i < length xs \<and> P (xs ! i)"
proof (induction xs arbitrary: i)
  case Nil
  then show ?case by simp
next
  case (Cons x xs)
  then show ?case by (cases "P x") (auto split: if_splits)
qed

lemma findIndex_None: "(findIndex P xs = None) = (\<forall>x \<in> set xs. \<not> P x)"
  by (induction xs) auto

lemma findIndex_append_fresh:
  "findIndex P xs = None \<Longrightarrow> P x \<Longrightarrow> findIndex P (xs @ [x]) = Some (length xs)"
  by (induction xs) (auto split: if_splits)

text \<open>
  Claim C6. Declaring an object whose logical id is that of an object input of the registry
  returns that input and leaves the registry as it is; otherwise it appends an input whose
  index is the length of the registry. Declaring the same id again, raw or resolved,
  returns the same input and changes nothing; declaring another id returns another input.
  Declaring a pure input always appends, with the length of the registry as index.
\<close>

theorem object_inputs_deduplicated:
  "((\<exists>i \<in> set (inputs td). input_type i = ObjectInput
         \<and> getIdFromCallArg e v = getIdFromCallArg e (input_value i)) \<longrightarrow>
      snd (Transaction_object e v td) = td
      \<and> fst (Transaction_object e v td) < length (inputs td)
      \<and> input_type (inputs td ! fst (Transaction_object e v td)) = ObjectInput
      \<and> getIdFromCallArg e (input_value (inputs td ! fst (Transaction_object e v td)))
          = getIdFromCallArg e v)
   \<and> (\<not> (\<exists>i \<in> set (inputs td). input_type i = ObjectInput
         \<and> getIdFromCallArg e v = getIdFromCallArg e (input_value i)) \<longrightarrow>
      Transaction_object e v td =
        (length (inputs td),
         td\<lparr>inputs := inputs td @
              [\<lparr>input_index = length (inputs td), input_type = ObjectInput, input_value = v\<rparr>]\<rparr>))
   \<and> (getIdFromCallArg e v' = getIdFromCallArg e v \<longrightarrow>
      Transaction_object e v' (snd (Transaction_object e v td)) = Transaction_object e v td)
   \<and> (getIdFromCallArg e v' \<noteq> getIdFromCallArg e v \<longrightarrow>
      fst (Transaction_object e v' (snd (Transaction_object e v td)))
        \<noteq> fst (Transaction_object e v td))
   \<and> Transaction_pure w td =
        (length (inputs td),
         td\<lparr>inputs := inputs td @
              [\<lparr>input_index = length (inputs td), input_type = PureInput, input_value = w\<rparr>]\<rparr>)"
proof -
  let ?P = "\<lambda>u i. input_type i = ObjectInput \<and> getIdFromCallArg e u = getIdFromCallArg e (input_value i)"
  let ?new = "\<lambda>u t. \<lparr>input_index = length (inputs t), input_type = ObjectInput, input_value = u\<rparr>"
  have found: "Transaction_object e u t = (pos, t)" if "findIndex (?P u) (inputs t) = Some pos" for u t pos
    using that by (simp add: Transaction_object_def Let_def)
  have fresh: "Transaction_object e u t = (length (inputs t), t\<lparr>inputs := inputs t @ [?new u t]\<rparr>)"
    if "findIndex (?P u) (inputs t) = None" for u t
    using that by (simp add: Transaction_object_def Transaction_input_def Let_def)
  have pos_ok: "fst (Transaction_object e u t) < length (inputs (snd (Transaction_object e u t)))
      \<and> ?P u (inputs (snd (Transaction_object e u t)) ! fst (Transaction_object e u t))" for u t
  proof (cases "findIndex (?P u) (inputs t)")
    case None
    then show ?thesis by (simp add: fresh nth_append)
  next
    case (Some pos)
    then show ?thesis using findIndex_Some [OF Some] by (simp add: found)
  qed
  have 1: "(\<exists>i \<in> set (inputs td). ?P v i) \<longrightarrow>
      snd (Transaction_object e v td) = td
      \<and> fst (Transaction_object e v td) < length (inputs td)
      \<and> input_type (inputs td ! fst (Transaction_object e v td)) = ObjectInput
      \<and> getIdFromCallArg e (input_value (inputs td ! fst (Transaction_object e v td)))
          = getIdFromCallArg e v"
  proof
    assume "\<exists>i \<in> set (inputs td). ?P v i"
    then obtain pos where p: "findIndex (?P v) (inputs td) = Some pos"
      using findIndex_None [of "?P v" "inputs td"] by (cases "findIndex (?P v) (inputs td)") auto
    show "snd (Transaction_object e v td) = td
      \<and> fst (Transaction_object e v td) < length (inputs td)
      \<and> input_type (inputs td ! fst (Transaction_object e v td)) = ObjectInput
      \<and> getIdFromCallArg e (input_value (inputs td ! fst (Transaction_object e v td)))
          = getIdFromCallArg e v"
      using findIndex_Some [OF p] by (simp add: found [OF p])
  qed
  have 2: "\<not> (\<exists>i \<in> set (inputs td). ?P v i) \<longrightarrow>
      Transaction_object e v td = (length (inputs td), td\<lparr>inputs := inputs td @ [?new v td]\<rparr>)"
    using findIndex_None [of "?P v" "inputs td"] fresh [of v td] by blast
  have again: "Transaction_object e v' (snd (Transaction_object e v td)) = Transaction_object e v td"
    if same: "getIdFromCallArg e v' = getIdFromCallArg e v"
  proof (cases "findIndex (?P v) (inputs td)")
    case None
    have n': "findIndex (?P v') (inputs td) = None" using None same by simp
    have "findIndex (?P v') (inputs td @ [?new v td]) = Some (length (inputs td))"
      by (rule findIndex_append_fresh [OF n']) (simp add: same)
    then show ?thesis using None by (simp add: fresh found)
  next
    case (Some pos)
    have "findIndex (?P v') (inputs td) = Some pos" using Some same by simp
    then show ?thesis using Some by (simp add: found)
  qed
  have differ: "fst (Transaction_object e v' (snd (Transaction_object e v td)))
        \<noteq> fst (Transaction_object e v td)"
    if diff: "getIdFromCallArg e v' \<noteq> getIdFromCallArg e v"
  proof
    let ?t1 = "snd (Transaction_object e v td)"
    let ?t2 = "snd (Transaction_object e v' ?t1)"
    assume eq: "fst (Transaction_object e v' ?t1) = fst (Transaction_object e v td)"
    have a: "?P v (inputs ?t1 ! fst (Transaction_object e v td))"
      and lt: "fst (Transaction_object e v td) < length (inputs ?t1)"
      using pos_ok [of v td] by simp_all
    have b: "?P v' (inputs ?t2 ! fst (Transaction_object e v' ?t1))" using pos_ok [of v' ?t1] by simp
    have keep: "inputs ?t2 ! k = inputs ?t1 ! k" if "k < length (inputs ?t1)" for k
    proof (cases "findIndex (?P v') (inputs ?t1)")
      case None
      then show ?thesis using that by (simp add: fresh nth_append)
    next
      case (Some pos)
      then show ?thesis by (simp add: found)
    qed
    from a b eq keep [OF lt] diff show False by simp
  qed
  have 5: "Transaction_pure w td =
        (length (inputs td),
         td\<lparr>inputs := inputs td @
              [\<lparr>input_index = length (inputs td), input_type = PureInput, input_value = w\<rparr>]\<rparr>)"
    by (simp add: Transaction_pure_def Transaction_input_def Let_def)
  show ?thesis using 1 2 again differ 5 by blast
qed

theorem object_inputs_deduplicated_witness:
  "(\<exists>i \<in> set (inputs (sample_tx [\<lparr>input_index = 0, input_type = ObjectInput, input_value = JString ''0xa''\<rparr>] [])).
       input_type i = ObjectInput
       \<and> getIdFromCallArg sample_env (JString ''0xa'') = getIdFromCallArg sample_env (input_value i))
   \<and> Transaction_object sample_env (JString ''0xa'')
        (sample_tx [\<lparr>input_index = 0, input_type = ObjectInput, input_value = JString ''0xa''\<rparr>] [])
      = (0, sample_tx [\<lparr>input_index = 0, input_type = ObjectInput, input_value = JString ''0xa''\<rparr>] [])
   \<and> \<not> (\<exists>i \<in> set (inputs (sample_tx [] [])). input_type i = ObjectInput
          \<and> getIdFromCallArg sample_env (JString ''0xa'') = getIdFromCallArg sample_env (input_value i))
   \<and> fst (Transaction_object sample_env (JString ''0xa'') (sample_tx [] [])) = 0
   \<and> getIdFromCallArg sample_env (JCallArg (Object (Shared (SharedObjectRef ''0xa'' 5 True))))
       = getIdFromCallArg sample_env (JString ''0xa'')
   \<and> fst (Transaction_object sample_env (JCallArg (Object (Shared (SharedObjectRef ''0xa'' 5 True))))
            (snd (Transaction_object sample_env (JString ''0xa'') (sample_tx [] [])))) = 0
   \<and> getIdFromCallArg sample_env (JString ''0xb'') \<noteq> getIdFromCallArg sample_env (JString ''0xa'')
   \<and> fst (Transaction_object sample_env (JString ''0xb'')
            (snd (Transaction_object sample_env (JString ''0xa'') (sample_tx [] [])))) \<noteq> 0"
proof -
  let ?one = "sample_tx [\<lparr>input_index = 0, input_type = ObjectInput, input_value = JString ''0xa''\<rparr>] []"
  have ex: "\<exists>i \<in> set (inputs ?one). input_type i = ObjectInput
       \<and> getIdFromCallArg sample_env (JString ''0xa'') = getIdFromCallArg sample_env (input_value i)"
    by (simp add: sample_tx_def)
  have nex: "\<not> (\<exists>i \<in> set (inputs (sample_tx [] [])). input_type i = ObjectInput
          \<and> getIdFromCallArg sample_env (JString ''0xa'') = getIdFromCallArg sample_env (input_value i))"
    by (simp add: sample_tx_def)
  have same: "getIdFromCallArg sample_env (JCallArg (Object (Shared (SharedObjectRef ''0xa'' 5 True))))
       = getIdFromCallArg sample_env (JString ''0xa'')"
    by (simp add: sample_env_def sample_getIdFromCallArg_def)
  have diff: "getIdFromCallArg sample_env (JString ''0xb'') \<noteq> getIdFromCallArg sample_env (JString ''0xa'')"
    by (simp add: sample_env_def sample_getIdFromCallArg_def)
  have len0: "length (inputs (sample_tx [] [])) = 0" by (simp add: sample_tx_def)
  have a: "Transaction_object sample_env (JString ''0xa'') ?one = (0, ?one)"
  proof -
    have len1: "length (inputs ?one) = 1" by (simp add: sample_tx_def)
    from object_inputs_deduplicated [of ?one sample_env "JString ''0xa''" "JString ''0xa''" JUndefined] ex
    have "snd (Transaction_object sample_env (JString ''0xa'') ?one) = ?one
        \<and> fst (Transaction_object sample_env (JString ''0xa'') ?one) < length (inputs ?one)"
      by blast
    then have "snd (Transaction_object sample_env (JString ''0xa'') ?one) = ?one"
      and "fst (Transaction_object sample_env (JString ''0xa'') ?one) = 0"
      using len1 by simp_all
    then show ?thesis by (simp add: prod_eq_iff)
  qed
  have b: "fst (Transaction_object sample_env (JString ''0xa'') (sample_tx [] [])) = 0"
    using object_inputs_deduplicated [of "sample_tx [] []" sample_env "JString ''0xa''" "JString ''0xa''" JUndefined]
      nex len0 by simp
  have c: "fst (Transaction_object sample_env (JCallArg (Object (Shared (SharedObjectRef ''0xa'' 5 True))))
            (snd (Transaction_object sample_env (JString ''0xa'') (sample_tx [] [])))) = 0"
    using object_inputs_deduplicated [of "sample_tx [] []" sample_env "JString ''0xa''"
        "JCallArg (Object (Shared (SharedObjectRef ''0xa'' 5 True)))" JUndefined] same b by simp
  have d: "fst (Transaction_object sample_env (JString ''0xb'')
            (snd (Transaction_object sample_env (JString ''0xa'') (sample_tx [] [])))) \<noteq> 0"
    using object_inputs_deduplicated [of "sample_tx [] []" sample_env "JString ''0xa''"
        "JString ''0xb''" JUndefined] diff b by simp
  show ?thesis using ex a nex b same c diff d by blast
qed

section \<open>What the steps of the pipeline leave alone\<close>

lemma bind_Inr_iff: "(bind m k = Inr b) = (\<exists>a. m = Inr a \<and> k a = Inr b)"
  by (cases m) (simp_all add: bind_def)

lemma reaches_signatures_iff:
  "reaches_signatures e td s =
     (\<exists>s1. checkPreconditions e td = Inr s1 \<and> classifyCommands e s1 = Inr s)"
  by (simp add: reaches_signatures_def bind_Inr_iff)

lemma reaches_objects_iff:
  "reaches_objects e td s =
     (\<exists>s1 s2. checkPreconditions e td = Inr s1 \<and> classifyCommands e s1 = Inr s2
        \<and> resolveMoveCalls e s2 = Inr s)"
  by (auto simp: reaches_objects_def bind_Inr_iff)

lemma reaches_gas_iff:
  "reaches_gas e td s = (\<exists>s1. checkPreconditions e td = Inr s1 \<and> resolveInputs e s1 = Inr s)"
  by (simp add: reaches_gas_def bind_Inr_iff)

lemma owned_object_ids_iff:
  "owned_object_ids ins =
     {objectId r | r. \<exists>i \<in> set ins. input_value i = JCallArg (Object (ImmOrOwned r))}"
proof -
  have "(owned_object_id i = Some x)
          = (\<exists>r. input_value i = JCallArg (Object (ImmOrOwned r)) \<and> x = objectId r)" for i x
    by (auto simp: owned_object_id_def split: js_value.splits call_arg.splits object_arg.splits)
  then show ?thesis
    unfolding owned_object_ids_def by (auto simp: in_these_eq image_iff) metis+
qed

lemma advances_refl [simp]: "advances [] s s"
  by (simp add: advances_def)

lemma advances_trans:
  "advances a s s1 \<Longrightarrow> advances b s1 s2 \<Longrightarrow> advances (a @ b) s s2"
  by (simp add: advances_def)

lemma advances_set_input_value [simp]: "advances [] s (set_input_value idx v s)"
  by (simp add: advances_def set_input_value_def)

lemma advances_push_object [simp]: "advances [] s (push_object entry s)"
  by (simp add: advances_def push_object_def)

lemma quietI:
  assumes "\<And>x s s'. f x s = Inr s' \<Longrightarrow> advances [] s s'"
    and "\<And>x s err issued. f x s = Inl (err, issued) \<Longrightarrow> issued = calls s"
  shows "quiet f"
  unfolding quiet_def using assms by (auto split: sum.splits)

lemma quiet_Inr: "quiet f \<Longrightarrow> f x s = Inr s' \<Longrightarrow> advances [] s s'"
  unfolding quiet_def by (metis sum.simps(6))

lemma quiet_Inl: "quiet f \<Longrightarrow> f x s = Inl (err, issued) \<Longrightarrow> issued = calls s"
  unfolding quiet_def by (metis old.sum.simps(5) case_prod_conv)

lemma forEachM_quiet_Inr:
  "quiet f \<Longrightarrow> forEachM f xs s = Inr s' \<Longrightarrow> advances [] s s'"
proof (induction xs arbitrary: s)
  case Nil
  then show ?case by simp
next
  case (Cons x xs)
  from Cons.prems(2) obtain s1 where 1: "f x s = Inr s1" and 2: "forEachM f xs s1 = Inr s'"
    by (auto split: sum.splits)
  from advances_trans [OF quiet_Inr [OF Cons.prems(1) 1] Cons.IH [OF Cons.prems(1) 2]]
  show ?case by simp
qed

lemma forEachM_quiet_Inl:
  "quiet f \<Longrightarrow> forEachM f xs s = Inl (err, issued) \<Longrightarrow> issued = calls s"
proof (induction xs arbitrary: s)
  case Nil
  then show ?case by simp
next
  case (Cons x xs)
  show ?case
  proof (cases "f x s")
    case (Inl a)
    with Cons.prems show ?thesis using quiet_Inl [OF Cons.prems(1), of x s err issued] by simp
  next
    case (Inr s1)
    with Cons.prems have "forEachM f xs s1 = Inl (err, issued)" by simp
    from Cons.IH [OF Cons.prems(1) this] quiet_Inr [OF Cons.prems(1) Inr]
    show ?thesis by (simp add: advances_def)
  qed
qed

lemma quiet_forEachM: "quiet f \<Longrightarrow> quiet (forEachM f)"
  by (rule quietI) (auto dest: forEachM_quiet_Inr forEachM_quiet_Inl)

lemma quiet_encodeInput: "quiet (encodeInput e enc)"
  by (rule quietI)
    (auto simp: encodeInput_def fail_def Let_def
      split: if_splits well_known_encoding.splits js_value.splits sum.splits)

lemma quiet_encodeArgument: "quiet (encodeArgument e enc)"
  by (rule quietI)
    (auto simp: encodeArgument_def split: command_argument.splits
      dest: quiet_Inr [OF quiet_encodeInput] quiet_Inl [OF quiet_encodeInput])

lemma quiet_encodeField: "quiet (encodeField e)"
  by (rule quietI)
    (auto simp: encodeField_def split: option.splits field_value.splits
      dest: quiet_Inr [OF quiet_encodeArgument] quiet_Inl [OF quiet_encodeArgument]
        forEachM_quiet_Inr [OF quiet_encodeArgument] forEachM_quiet_Inl [OF quiet_encodeArgument])

lemma quiet_classifyCommand: "quiet (classifyCommand e)"
  by (rule quietI)
    (auto simp: classifyCommand_def fail_def advances_def
      split: command.splits sum.splits bool.splits if_splits
      dest: forEachM_quiet_Inr [OF quiet_encodeField] forEachM_quiet_Inl [OF quiet_encodeField])

lemma quiet_resolveParam: "quiet (resolveParam e args)"
  by (rule quietI)
    (auto simp: resolveParam_def fail_def Let_def
      split: if_splits command_argument.splits js_value.splits sum.splits prod.splits)

lemma quiet_resolveMoveCall: "quiet (resolveMoveCall e p)"
  by (rule quietI)
    (auto simp: resolveMoveCall_def fail_def Let_def split: if_splits sum.splits
      dest: forEachM_quiet_Inr [OF quiet_resolveParam] forEachM_quiet_Inl [OF quiet_resolveParam])

lemma quiet_resolveObject: "quiet (resolveObject e byId)"
  by (rule quietI)
    (auto simp: resolveObject_def fail_def split: option.splits)

lemma quiet_resolveFetchedObjects: "quiet (resolveFetchedObjects e ids)"
  by (rule quietI)
    (auto simp: resolveFetchedObjects_def fail_def Let_def split: sum.splits if_splits
      dest: forEachM_quiet_Inr [OF quiet_resolveObject] forEachM_quiet_Inl [OF quiet_resolveObject])

lemma issuesI:
  "list_all P extra \<Longrightarrow>
   (case r of Inr s' \<Rightarrow> advances extra s s' | Inl (err, issued) \<Rightarrow> issued = calls s @ extra) \<Longrightarrow>
   issues P s r"
  unfolding issues_def by blast

lemma issues_quiet: "quiet f \<Longrightarrow> issues P s (f x s)"
  by (rule issuesI [of P "[]"]) (auto simp: quiet_def split: sum.splits)

lemma issues_shift:
  assumes "advances extra s s1" "list_all P extra" "issues P s1 r"
  shows "issues P s r"
proof -
  from assms(3) obtain more where m: "list_all P more"
    and r: "case r of Inr s' \<Rightarrow> advances more s1 s' | Inl (err, issued) \<Rightarrow> issued = calls s1 @ more"
    unfolding issues_def by blast
  show ?thesis
  proof (rule issuesI [of P "extra @ more"])
    show "list_all P (extra @ more)" using assms(2) m by simp
    show "case r of Inr s' \<Rightarrow> advances (extra @ more) s s'
          | Inl (err, issued) \<Rightarrow> issued = calls s @ extra @ more"
      using r assms(1) by (auto simp: advances_def split: sum.splits)
  qed
qed

lemma issues_bind:
  assumes "issues P s m" and "\<And>s1. m = Inr s1 \<Longrightarrow> issues P s1 (k s1)"
  shows "issues P s (bind m k)"
proof (cases m)
  case (Inl a)
  then show ?thesis using assms(1) by (simp add: bind_def)
next
  case (Inr s1)
  from assms(1) Inr obtain extra where "list_all P extra" "advances extra s s1"
    unfolding issues_def by auto
  from issues_shift [OF this(2) this(1) assms(2) [OF Inr]] Inr show ?thesis
    by (simp add: bind_def)
qed

lemma issues_classifyCommands: "issues P s (classifyCommands e s)"
  unfolding classifyCommands_def
  by (rule issues_quiet [OF quiet_forEachM [OF quiet_classifyCommand]])

lemma issues_resolveMoveCalls: "issues is_signature_or_batch s (resolveMoveCalls e s)"
proof (cases "moveModulesToResolve s = []")
  case True
  then show ?thesis by (auto simp: resolveMoveCalls_def intro: issuesI [of _ "[]"])
next
  case False
  show ?thesis
  proof (cases "provider e")
    case None
    then show ?thesis using False
      by (auto simp: resolveMoveCalls_def fail_def intro: issuesI [of _ "[]"])
  next
    case (Some p)
    let ?reqs = "map (request_of e) (moveModulesToResolve s)"
    let ?s1 = "s\<lparr>calls := calls s @ ?reqs\<rparr>"
    have a: "advances ?reqs s ?s1" by (simp add: advances_def)
    have b: "list_all is_signature_or_batch ?reqs"
      by (simp add: list_all_iff request_of_def Let_def is_signature_or_batch_def)
    have c: "issues is_signature_or_batch ?s1 (forEachM (resolveMoveCall e p) (moveModulesToResolve s) ?s1)"
      by (rule issues_quiet [OF quiet_forEachM [OF quiet_resolveMoveCall]])
    from issues_shift [OF a b c] show ?thesis using False Some
      by (simp add: resolveMoveCalls_def)
  qed
qed

lemma issues_resolveObjects: "issues is_signature_or_batch s (resolveObjects e s)"
proof (cases "objectsToResolve s = []")
  case True
  then show ?thesis by (auto simp: resolveObjects_def intro: issuesI [of _ "[]"])
next
  case False
  show ?thesis
  proof (cases "provider e")
    case None
    then show ?thesis using False
      by (auto simp: resolveObjects_def fail_def Let_def intro: issuesI [of _ "[]"])
  next
    case (Some p)
    let ?ids = "new_Set (map otr_id (objectsToResolve s))"
    let ?s1 = "s\<lparr>calls := calls s @ [GetObjectBatch ?ids]\<rparr>"
    have a: "advances [GetObjectBatch ?ids] s ?s1" by (simp add: advances_def)
    have b: "list_all is_signature_or_batch [GetObjectBatch ?ids]"
      by (simp add: is_signature_or_batch_def)
    have c: "issues is_signature_or_batch ?s1 (resolveFetchedObjects e ?ids objects ?s1)" for objects
      by (rule issues_quiet [OF quiet_resolveFetchedObjects])
    have d: "issues is_signature_or_batch ?s1 (fail (Thrown m) ?s1)" for m
      by (auto simp: fail_def intro: issuesI [of _ "[]"])
    have "issues is_signature_or_batch ?s1
            (case getObjectBatch p ?ids of Inl m \<Rightarrow> fail (Thrown m) ?s1
             | Inr objects \<Rightarrow> resolveFetchedObjects e ?ids objects ?s1)"
      using c d by (cases "getObjectBatch p ?ids") simp_all
    from issues_shift [OF a b this] show ?thesis using False Some
      by (simp add: resolveObjects_def Let_def)
  qed
qed

lemma issues_resolveInputs: "issues is_signature_or_batch s (resolveInputs e s)"
  unfolding resolveInputs_def
  by (intro issues_bind issues_classifyCommands issues_resolveMoveCalls issues_resolveObjects)

section \<open>Preconditions and the gas price\<close>

lemma issues_trace: "issues P s r \<Longrightarrow> \<exists>extra. list_all P extra \<and> trace_of r = calls s @ extra"
proof -
  assume "issues P s r"
  then obtain extra where x: "list_all P extra"
    and r: "case r of Inr s' \<Rightarrow> advances extra s s' | Inl (err, issued) \<Rightarrow> issued = calls s @ extra"
    unfolding issues_def by blast
  have "trace_of r = calls s @ extra"
  proof (cases r)
    case (Inl a)
    then show ?thesis using r by (cases a) (simp add: trace_of_def)
  next
    case (Inr b)
    then show ?thesis using r by (simp add: trace_of_def advances_def)
  qed
  with x show ?thesis by blast
qed

lemma issues_Inr: "issues P s (Inr s') \<Longrightarrow> \<exists>extra. list_all P extra \<and> advances extra s s'"
  unfolding issues_def by auto

lemma trace_selectGasPayment:
  "trace_of (selectGasPayment e s) =
     calls s @ (if gas_payment (tx s) = None \<and> provider e \<noteq> None
                then [GetCoins (sender (tx s)) (SUI_TYPE_ARG e)] else [])"
  by (auto simp: selectGasPayment_def trace_of_def fail_def Let_def split: option.splits sum.splits)

lemma trace_rest:
  "\<exists>extra. trace_of (bind (resolveInputs e s) (selectGasPayment e)) = calls s @ extra
      \<and> list_all (\<lambda>c. c \<noteq> GetReferenceGasPrice) extra
      \<and> (gas_payment (tx s) \<noteq> None \<longrightarrow> list_all is_signature_or_batch extra)"
proof (cases "resolveInputs e s")
  case (Inl a)
  from issues_trace [OF issues_resolveInputs [of s e]] obtain extra
    where x: "list_all is_signature_or_batch extra" "trace_of (resolveInputs e s) = calls s @ extra"
    by blast
  have ne: "list_all (\<lambda>c. c \<noteq> GetReferenceGasPrice) extra"
    using x(1) by (auto simp: list_all_iff is_signature_or_batch_def)
  have "trace_of (bind (resolveInputs e s) (selectGasPayment e)) = calls s @ extra"
    using Inl x(2) by (simp add: bind_def)
  with ne x(1) show ?thesis by blast
next
  case (Inr s2)
  have "issues is_signature_or_batch s (Inr s2)"
    using issues_resolveInputs [of s e] Inr by simp
  from issues_Inr [OF this]
  obtain extra where x: "list_all is_signature_or_batch extra" "advances extra s s2"
    by blast
  have ne: "list_all (\<lambda>c. c \<noteq> GetReferenceGasPrice) extra"
    using x(1) by (auto simp: list_all_iff is_signature_or_batch_def)
  have pay: "gas_payment (tx s2) = gas_payment (tx s)" and c2: "calls s2 = calls s @ extra"
    using x(2) by (simp_all add: advances_def)
  let ?last = "if gas_payment (tx s2) = None \<and> provider e \<noteq> None
               then [GetCoins (sender (tx s2)) (SUI_TYPE_ARG e)] else []"
  have t: "trace_of (bind (resolveInputs e s) (selectGasPayment e)) = calls s @ (extra @ ?last)"
    using Inr c2 by (simp add: bind_def trace_selectGasPayment)
  have a: "list_all (\<lambda>c. c \<noteq> GetReferenceGasPrice) (extra @ ?last)"
    using ne by simp
  have b: "gas_payment (tx s) \<noteq> None \<longrightarrow> list_all is_signature_or_batch (extra @ ?last)"
    using x(1) pay by simp
  from t a b show ?thesis by blast
qed

lemma prepare_unfold:
  "checkPreconditions e td = Inr s1 \<Longrightarrow>
   prepare e td = bind (resolveInputs e s1) (selectGasPayment e)"
  by (simp add: prepare_def bind_def)

lemma prepare_price:
  "prepare e td = Inr s' \<Longrightarrow> gas_price td = None \<or> gas_price td = Some [] \<Longrightarrow>
   provider e = Some p \<Longrightarrow> getReferenceGasPrice p = Inr price \<Longrightarrow>
   gas_price (tx s') = Some (string_of_nat price)"
proof -
  assume ok: "prepare e td = Inr s'" and u: "gas_price td = None \<or> gas_price td = Some []"
    and p: "provider e = Some p" and g: "getReferenceGasPrice p = Inr price"
  let ?s1 = "(start_state (td\<lparr>gas_price := Some (string_of_nat price)\<rparr>))\<lparr>calls := [GetReferenceGasPrice]\<rparr>"
  from ok have c: "checkPreconditions e td = Inr ?s1"
    using u p g by (auto simp: prepare_def bind_def checkPreconditions_def unset_def split: if_splits)
  from ok prepare_unfold [OF c] obtain s2 where r: "resolveInputs e ?s1 = Inr s2"
    and f: "selectGasPayment e s2 = Inr s'"
    by (auto simp: bind_def split: sum.splits)
  from issues_Inr [of is_signature_or_batch ?s1 s2] issues_resolveInputs [of ?s1 e] r
  have "gas_price (tx s2) = gas_price (tx ?s1)" by (auto simp: advances_def)
  moreover from f have "gas_price (tx s') = gas_price (tx s2)"
    by (auto simp: selectGasPayment_def fail_def Let_def split: if_splits option.splits sum.splits)
  ultimately show ?thesis by (simp add: start_state_def)
qed

text \<open>
  Claim C7. A missing sender, or a missing budget with the sender set, fails the run with
  its precondition error and with no remote call issued. With both set and a provider at
  hand, the reference gas price is requested exactly when the price is unset, once and as
  the first remote call; the price it answers is stored in the state every later step
  starts from, and is the price of the resolved transaction. (\<open>unset\<close> is the source's
  test \<^verbatim>\<open>!x\<close>: \<^verbatim>\<open>undefined\<close> or the empty string.)
\<close>

theorem preconditions_and_gas_price:
  "(unset (sender td) \<longrightarrow> prepare e td = Inl (MissingSender, []))
   \<and> (\<not> unset (sender td) \<and> unset (gas_budget td) \<longrightarrow> prepare e td = Inl (MissingGasBudget, []))
   \<and> (\<not> unset (sender td) \<and> \<not> unset (gas_budget td) \<and> provider e = Some p \<longrightarrow>
        (GetReferenceGasPrice \<in> set (trace_of (prepare e td))) = unset (gas_price td)
        \<and> count_list (trace_of (prepare e td)) GetReferenceGasPrice
            = (if unset (gas_price td) then 1 else 0)
        \<and> (unset (gas_price td) \<longrightarrow>
             hd (trace_of (prepare e td)) = GetReferenceGasPrice
             \<and> (\<forall>price. getReferenceGasPrice p = Inr price \<longrightarrow>
                  prepare e td =
                    bind (resolveInputs e
                            ((start_state (td\<lparr>gas_price := Some (string_of_nat price)\<rparr>))
                               \<lparr>calls := [GetReferenceGasPrice]\<rparr>))
                         (selectGasPayment e)
                  \<and> (\<forall>s'. prepare e td = Inr s' \<longrightarrow> gas_price (tx s') = Some (string_of_nat price)))
             \<and> (\<forall>m. getReferenceGasPrice p = Inl m \<longrightarrow>
                  prepare e td = Inl (Thrown m, [GetReferenceGasPrice])))
        \<and> (\<not> unset (gas_price td) \<longrightarrow>
             prepare e td = bind (resolveInputs e (start_state td)) (selectGasPayment e)))"
proof -
  have 1: "unset (sender td) \<longrightarrow> prepare e td = Inl (MissingSender, [])"
    by (simp add: prepare_def bind_def checkPreconditions_def)
  have 2: "\<not> unset (sender td) \<and> unset (gas_budget td) \<longrightarrow> prepare e td = Inl (MissingGasBudget, [])"
    by (simp add: prepare_def bind_def checkPreconditions_def)
  have 3: "(GetReferenceGasPrice \<in> set (trace_of (prepare e td))) = unset (gas_price td)
        \<and> count_list (trace_of (prepare e td)) GetReferenceGasPrice
            = (if unset (gas_price td) then 1 else 0)
        \<and> (unset (gas_price td) \<longrightarrow>
             hd (trace_of (prepare e td)) = GetReferenceGasPrice
             \<and> (\<forall>price. getReferenceGasPrice p = Inr price \<longrightarrow>
                  prepare e td =
                    bind (resolveInputs e
                            ((start_state (td\<lparr>gas_price := Some (string_of_nat price)\<rparr>))
                               \<lparr>calls := [GetReferenceGasPrice]\<rparr>))
                         (selectGasPayment e)
                  \<and> (\<forall>s'. prepare e td = Inr s' \<longrightarrow> gas_price (tx s') = Some (string_of_nat price)))
             \<and> (\<forall>m. getReferenceGasPrice p = Inl m \<longrightarrow>
                  prepare e td = Inl (Thrown m, [GetReferenceGasPrice])))
        \<and> (\<not> unset (gas_price td) \<longrightarrow>
             prepare e td = bind (resolveInputs e (start_state td)) (selectGasPayment e))"
    if s: "\<not> unset (sender td)" and b: "\<not> unset (gas_budget td)" and p: "provider e = Some p"
  proof (cases "unset (gas_price td)")
    case False
    have c: "checkPreconditions e td = Inr (start_state td)"
      using s b False by (simp add: checkPreconditions_def)
    from trace_rest [of e "start_state td"] obtain extra where
      x: "trace_of (bind (resolveInputs e (start_state td)) (selectGasPayment e)) = extra"
         "list_all (\<lambda>c. c \<noteq> GetReferenceGasPrice) extra"
      by (auto simp: start_state_def)
    have "GetReferenceGasPrice \<notin> set extra" using x(2) by (auto simp: list_all_iff)
    then have "count_list extra GetReferenceGasPrice = 0" by (simp add: count_list_0_iff)
    then show ?thesis using False x(1) prepare_unfold [OF c] by (simp add: count_list_0_iff)
  next
    case True
    show ?thesis
    proof (cases "getReferenceGasPrice p")
      case (Inl m)
      then have "prepare e td = Inl (Thrown m, [GetReferenceGasPrice])"
        using s b p True by (simp add: prepare_def bind_def checkPreconditions_def)
      then show ?thesis using True Inl by (simp add: trace_of_def)
    next
      case (Inr price)
      let ?s1 = "(start_state (td\<lparr>gas_price := Some (string_of_nat price)\<rparr>))\<lparr>calls := [GetReferenceGasPrice]\<rparr>"
      have c: "checkPreconditions e td = Inr ?s1"
        using s b p True Inr by (simp add: checkPreconditions_def)
      from trace_rest [of e ?s1] obtain extra where
        x: "trace_of (bind (resolveInputs e ?s1) (selectGasPayment e)) = GetReferenceGasPrice # extra"
           "list_all (\<lambda>c. c \<noteq> GetReferenceGasPrice) extra"
        by auto
      have "GetReferenceGasPrice \<notin> set extra" using x(2) by (auto simp: list_all_iff)
      then have n: "count_list extra GetReferenceGasPrice = 0" by (simp add: count_list_0_iff)
      have u: "gas_price td = None \<or> gas_price td = Some []"
        using True by (auto simp: unset_def split: option.splits)
      have fin: "\<forall>s'. prepare e td = Inr s' \<longrightarrow> gas_price (tx s') = Some (string_of_nat price)"
        using prepare_price [OF _ u p Inr] by blast
      show ?thesis using True Inr x(1) n fin prepare_unfold [OF c] by simp
    qed
  qed
  show ?thesis using 1 2 3 by blast
qed

section \<open>Gas payment selection\<close>

lemma checkPreconditions_Inr:
  "checkPreconditions e td = Inr s1 \<Longrightarrow>
     sender (tx s1) = sender td \<and> gas_payment (tx s1) = gas_payment td
     \<and> inputs (tx s1) = inputs td \<and> commands (tx s1) = commands td
     \<and> (calls s1 = [] \<or> calls s1 = [GetReferenceGasPrice])
     \<and> moveModulesToResolve s1 = [] \<and> objectsToResolve s1 = []"
  by (auto simp: checkPreconditions_def start_state_def split: if_splits option.splits sum.splits)

lemma checkPreconditions_Inl:
  "checkPreconditions e td = Inl (err, issued) \<Longrightarrow> issued = [] \<or> issued = [GetReferenceGasPrice]"
  by (auto simp: checkPreconditions_def split: if_splits option.splits sum.splits)

lemma matches_coin_iff:
  "matches_coin c i = (\<exists>r. input_value i = JCallArg (Object (ImmOrOwned r)) \<and> coinObjectId c = objectId r)"
  by (auto simp: matches_coin_def split: js_value.splits call_arg.splits object_arg.splits)

lemma find_matches_coin:
  "(find (matches_coin c) ins = None) = (coinObjectId c \<notin> owned_object_ids ins)"
proof -
  have "(find (matches_coin c) ins = None) = (\<not> (\<exists>i \<in> set ins. matches_coin c i))"
    by (auto simp: find_None_iff)
  also have "\<dots> = (coinObjectId c \<notin> owned_object_ids ins)"
    unfolding owned_object_ids_iff matches_coin_iff by blast
  finally show ?thesis .
qed

lemma select_payment_owned:
  "select_payment ins coins =
     map coin_ref (filter (\<lambda>c. coinObjectId c \<notin> owned_object_ids ins) coins)"
  by (simp add: select_payment_def find_matches_coin)

lemma reaches_gas_frame:
  assumes "reaches_gas e td s"
  shows "sender (tx s) = sender td" "gas_payment (tx s) = gas_payment td"
    "prepare e td = selectGasPayment e s"
proof -
  from assms obtain s1 where c: "checkPreconditions e td = Inr s1"
    and r: "resolveInputs e s1 = Inr s"
    unfolding reaches_gas_iff by blast
  have "issues is_signature_or_batch s1 (Inr s)" using issues_resolveInputs [of s1 e] r by simp
  from issues_Inr [OF this] obtain extra where a: "advances extra s1 s" by blast
  show "sender (tx s) = sender td" "gas_payment (tx s) = gas_payment td"
    using a checkPreconditions_Inr [OF c] by (simp_all add: advances_def)
  show "prepare e td = selectGasPayment e s"
    using prepare_unfold [OF c] r by (simp add: bind_def)
qed

lemma no_coins_in_batch: "list_all is_signature_or_batch xs \<Longrightarrow> GetCoins who ct \<notin> set xs"
  by (auto simp: list_all_iff is_signature_or_batch_def)

lemma payment_kept:
  assumes set: "gas_payment td \<noteq> None"
  shows "GetCoins who ct \<notin> set (trace_of (prepare e td))"
    and "prepare e td = Inr s' \<Longrightarrow> gas_payment (tx s') = gas_payment td"
proof -
  show "GetCoins who ct \<notin> set (trace_of (prepare e td))"
  proof (cases "checkPreconditions e td")
    case (Inl a)
    obtain err issued where a: "a = (err, issued)" by (cases a)
    from checkPreconditions_Inl [of e td err issued] Inl a
    show ?thesis by (auto simp: prepare_def bind_def trace_of_def)
  next
    case (Inr s1)
    from trace_rest [of e s1] obtain extra where
      t: "trace_of (bind (resolveInputs e s1) (selectGasPayment e)) = calls s1 @ extra"
      and b: "gas_payment (tx s1) \<noteq> None \<longrightarrow> list_all is_signature_or_batch extra"
      by blast
    have "list_all is_signature_or_batch extra"
      using b set checkPreconditions_Inr [OF Inr] by simp
    then have "GetCoins who ct \<notin> set extra" by (rule no_coins_in_batch)
    moreover have "GetCoins who ct \<notin> set (calls s1)"
      using checkPreconditions_Inr [OF Inr] by auto
    ultimately show ?thesis using t prepare_unfold [OF Inr] by simp
  qed
  show "gas_payment (tx s') = gas_payment td" if ok: "prepare e td = Inr s'"
  proof -
    from ok obtain s1 where c: "checkPreconditions e td = Inr s1"
      by (auto simp: prepare_def bind_def split: sum.splits)
    from ok prepare_unfold [OF c] obtain s2 where r: "resolveInputs e s1 = Inr s2"
      and f: "selectGasPayment e s2 = Inr s'"
      by (auto simp: bind_def split: sum.splits)
    have g: "reaches_gas e td s2" unfolding reaches_gas_iff using c r by blast
    have "gas_payment (tx s2) \<noteq> None" using reaches_gas_frame(2) [OF g] set by simp
    then have "s' = s2" using f by (simp add: selectGasPayment_def)
    then show ?thesis using reaches_gas_frame(2) [OF g] by simp
  qed
qed

text \<open>
  Claim C4. When the payment is set, no coin query is issued and the payment stays as it
  is. When it is unset and the run reaches gas payment selection in the state \<open>s\<close>, the
  sender's coins of the native type are queried and the payment becomes the references of
  exactly those coins whose object id is not the id of an input that holds an owned-object
  reference, in the order of the answer; when none is left, as when every coin of the
  answer is such an input, the run fails with \<open>NoValidGasCoins\<close>.
\<close>

theorem gas_payment_selection:
  "(gas_payment td \<noteq> None \<longrightarrow>
      (\<forall>who ct. GetCoins who ct \<notin> set (trace_of (prepare e td)))
      \<and> (\<forall>s'. prepare e td = Inr s' \<longrightarrow> gas_payment (tx s') = gas_payment td))
   \<and> (gas_payment td = None \<and> reaches_gas e td s \<and> provider e = Some p
        \<and> getCoins p (sender td) (SUI_TYPE_ARG e) = Inr coins \<longrightarrow>
        (filter (\<lambda>c. coinObjectId c \<notin> owned_object_ids (inputs (tx s))) coins \<noteq> [] \<longrightarrow>
           prepare e td =
             Inr (s\<lparr>calls := calls s @ [GetCoins (sender td) (SUI_TYPE_ARG e)],
                    tx := (tx s)\<lparr>gas_payment :=
                      Some (map coin_ref
                              (filter (\<lambda>c. coinObjectId c \<notin> owned_object_ids (inputs (tx s))) coins))\<rparr>\<rparr>))
        \<and> (filter (\<lambda>c. coinObjectId c \<notin> owned_object_ids (inputs (tx s))) coins = [] \<longrightarrow>
             prepare e td =
               Inl (NoValidGasCoins, calls s @ [GetCoins (sender td) (SUI_TYPE_ARG e)]))
        \<and> ((\<forall>c \<in> set coins. coinObjectId c \<in> owned_object_ids (inputs (tx s))) \<longrightarrow>
             prepare e td =
               Inl (NoValidGasCoins, calls s @ [GetCoins (sender td) (SUI_TYPE_ARG e)])))"
proof -
  let ?rem = "filter (\<lambda>c. coinObjectId c \<notin> owned_object_ids (inputs (tx s))) coins"
  have 1: "gas_payment td \<noteq> None \<longrightarrow>
      (\<forall>who ct. GetCoins who ct \<notin> set (trace_of (prepare e td)))
      \<and> (\<forall>s'. prepare e td = Inr s' \<longrightarrow> gas_payment (tx s') = gas_payment td)"
    using payment_kept by blast
  have 2: "(?rem \<noteq> [] \<longrightarrow>
           prepare e td =
             Inr (s\<lparr>calls := calls s @ [GetCoins (sender td) (SUI_TYPE_ARG e)],
                    tx := (tx s)\<lparr>gas_payment := Some (map coin_ref ?rem)\<rparr>\<rparr>))
        \<and> (?rem = [] \<longrightarrow>
             prepare e td =
               Inl (NoValidGasCoins, calls s @ [GetCoins (sender td) (SUI_TYPE_ARG e)]))
        \<and> ((\<forall>c \<in> set coins. coinObjectId c \<in> owned_object_ids (inputs (tx s))) \<longrightarrow>
             prepare e td =
               Inl (NoValidGasCoins, calls s @ [GetCoins (sender td) (SUI_TYPE_ARG e)]))"
    if unset: "gas_payment td = None" and g: "reaches_gas e td s" and p: "provider e = Some p"
      and coins: "getCoins p (sender td) (SUI_TYPE_ARG e) = Inr coins"
  proof -
    note fr = reaches_gas_frame [OF g]
    have sel: "prepare e td =
        (if ?rem = [] then Inl (NoValidGasCoins, calls s @ [GetCoins (sender td) (SUI_TYPE_ARG e)])
         else Inr (s\<lparr>calls := calls s @ [GetCoins (sender td) (SUI_TYPE_ARG e)],
                     tx := (tx s)\<lparr>gas_payment := Some (map coin_ref ?rem)\<rparr>\<rparr>))"
      using fr unset p coins
      by (simp add: selectGasPayment_def Let_def fail_def select_payment_owned)
    have all: "?rem = []" if "\<forall>c \<in> set coins. coinObjectId c \<in> owned_object_ids (inputs (tx s))"
      using that by (simp add: filter_empty_conv)
    show ?thesis using sel all by simp
  qed
  show ?thesis using 1 2 by blast
qed

section \<open>Running the model on the samples\<close>

lemmas sample_defs =
  sample_env_def sample_provider_def sample_tx_def sample_object_def sample_signature_def
  sample_TxContext_def sample_wire_type_def sample_bcs_ser_def u64_bytes_def
  sample_getPureSerializationType_def sample_extractStructTag_def
  sample_extractMutableReference_def sample_getIdFromCallArg_def
  object_input_def pure_input_def objects_command_def

lemmas run_defs =
  prepare_def resolveInputs_def bind_def checkPreconditions_def unset_def start_state_def
  classifyCommands_def classifyCommand_def encodeField_def encodeArgument_def encodeInput_def
  fail_def push_object_def set_input_value_def is_BuilderCallArg_def Inputs_Pure_def
  resolveMoveCalls_def resolveMoveCall_def resolveParam_def request_of_def fetch_parameters_def
  expected_params_def nth_opt_def input_object_def is_TypeParameter_def
  resolveObjects_def resolveFetchedObjects_def resolveObject_def resolved_value_def
  new_Set_def make_objectsById_def getSharedObjectInitialVersion_def getObjectReference_def
  isMutableSharedObjectInput_def selectGasPayment_def select_payment_def matches_coin_def
  coin_ref_def enumerate_eq_zip Let_def

theorem preconditions_and_gas_price_witness:
  "unset (sender ((sample_tx [] [])\<lparr>sender := None\<rparr>))
   \<and> prepare sample_env ((sample_tx [] [])\<lparr>sender := None\<rparr>) = Inl (MissingSender, [])
   \<and> \<not> unset (sender ((sample_tx [] [])\<lparr>gas_budget := None\<rparr>))
   \<and> unset (gas_budget ((sample_tx [] [])\<lparr>gas_budget := None\<rparr>))
   \<and> prepare sample_env ((sample_tx [] [])\<lparr>gas_budget := None\<rparr>) = Inl (MissingGasBudget, [])
   \<and> \<not> unset (sender ((sample_tx [] [])\<lparr>gas_price := None\<rparr>))
   \<and> \<not> unset (gas_budget ((sample_tx [] [])\<lparr>gas_price := None\<rparr>))
   \<and> provider sample_env = Some sample_provider
   \<and> unset (gas_price ((sample_tx [] [])\<lparr>gas_price := None\<rparr>))
   \<and> getReferenceGasPrice sample_provider = Inr 1000
   \<and> count_list (trace_of (prepare sample_env ((sample_tx [] [])\<lparr>gas_price := None\<rparr>)))
        GetReferenceGasPrice = 1
   \<and> \<not> unset (gas_price (sample_tx [] []))
   \<and> GetReferenceGasPrice \<notin> set (trace_of (prepare sample_env (sample_tx [] [])))"
proof -
  let ?a = "(sample_tx [] [])\<lparr>sender := None\<rparr>"
  let ?b = "(sample_tx [] [])\<lparr>gas_budget := None\<rparr>"
  let ?c = "(sample_tx [] [])\<lparr>gas_price := None\<rparr>"
  let ?d = "sample_tx [] []"
  have a: "unset (sender ?a)" by (simp add: unset_def)
  have b: "\<not> unset (sender ?b)" "unset (gas_budget ?b)" by (simp_all add: unset_def sample_tx_def)
  have c: "\<not> unset (sender ?c)" "\<not> unset (gas_budget ?c)" "unset (gas_price ?c)"
    by (simp_all add: unset_def sample_tx_def)
  have d: "\<not> unset (sender ?d)" "\<not> unset (gas_budget ?d)" "\<not> unset (gas_price ?d)"
    by (simp_all add: unset_def sample_tx_def)
  have p: "provider sample_env = Some sample_provider" by (simp add: sample_env_def)
  have g: "getReferenceGasPrice sample_provider = Inr 1000" by (simp add: sample_provider_def)
  have 1: "prepare sample_env ?a = Inl (MissingSender, [])"
    using preconditions_and_gas_price [of ?a sample_env sample_provider] a by blast
  have 2: "prepare sample_env ?b = Inl (MissingGasBudget, [])"
    using preconditions_and_gas_price [of ?b sample_env sample_provider] b by blast
  have "count_list (trace_of (prepare sample_env ?c)) GetReferenceGasPrice
          = (if unset (gas_price ?c) then 1 else 0)"
    using preconditions_and_gas_price [of ?c sample_env sample_provider] c p by blast
  then have 3: "count_list (trace_of (prepare sample_env ?c)) GetReferenceGasPrice = 1"
    using c(3) by simp
  have 4: "GetReferenceGasPrice \<notin> set (trace_of (prepare sample_env ?d))"
    using preconditions_and_gas_price [of ?d sample_env sample_provider] d p by blast
  show ?thesis using a b c d p g 1 2 3 4 by blast
qed

lemma owned_object_ids_Nil [simp]: "owned_object_ids [] = {}"
  by (simp add: owned_object_ids_def)

lemma owned_object_ids_Cons [simp]:
  "owned_object_ids (i # ins) =
     (case input_value i of
        JCallArg (Object (ImmOrOwned r)) \<Rightarrow> insert (objectId r) (owned_object_ids ins)
      | _ \<Rightarrow> owned_object_ids ins)"
  unfolding owned_object_ids_iff
  by (auto split: js_value.splits call_arg.splits object_arg.splits)

lemma coins_reach_gas: "reaches_gas sample_env one_coin_tx one_coin_state"
  "reaches_gas sample_env both_coins_tx both_coins_state"
proof -
  have 1: "resolveInputs sample_env (start_state one_coin_tx) = Inr one_coin_state"
    by (simp add: run_defs sample_defs one_coin_tx_def one_coin_state_def)
  have 2: "resolveInputs sample_env (start_state both_coins_tx) = Inr both_coins_state"
    by (simp add: run_defs sample_defs both_coins_tx_def both_coins_state_def)
  have c1: "checkPreconditions sample_env one_coin_tx = Inr (start_state one_coin_tx)"
    by (simp add: checkPreconditions_def unset_def one_coin_tx_def sample_tx_def)
  have c2: "checkPreconditions sample_env both_coins_tx = Inr (start_state both_coins_tx)"
    by (simp add: checkPreconditions_def unset_def both_coins_tx_def sample_tx_def)
  show "reaches_gas sample_env one_coin_tx one_coin_state"
    unfolding reaches_gas_iff using c1 1 by blast
  show "reaches_gas sample_env both_coins_tx both_coins_state"
    unfolding reaches_gas_iff using c2 2 by blast
qed

theorem gas_payment_selection_witness:
  "gas_payment (sample_tx [] []) \<noteq> None
   \<and> GetCoins (Some ''0x5'') ''0x2::sui::SUI'' \<notin> set (trace_of (prepare sample_env (sample_tx [] [])))
   \<and> gas_payment one_coin_tx = None \<and> reaches_gas sample_env one_coin_tx one_coin_state
   \<and> provider sample_env = Some sample_provider
   \<and> getCoins sample_provider (sender one_coin_tx) (SUI_TYPE_ARG sample_env)
       = Inr [\<lparr>coinObjectId = ''0xc1'', coin_digest = ''d1'', coin_version = 3\<rparr>,
              \<lparr>coinObjectId = ''0xc2'', coin_digest = ''d2'', coin_version = 4\<rparr>]
   \<and> prepare sample_env one_coin_tx =
       Inr (one_coin_state\<lparr>calls := [GetObjectBatch [''0xc1''], GetCoins (Some ''0x5'') ''0x2::sui::SUI''],
              tx := (tx one_coin_state)\<lparr>gas_payment := Some [SuiObjectRef ''0xc2'' 4 ''d2'']\<rparr>\<rparr>)
   \<and> gas_payment both_coins_tx = None \<and> reaches_gas sample_env both_coins_tx both_coins_state
   \<and> prepare sample_env both_coins_tx =
       Inl (NoValidGasCoins, [GetObjectBatch [''0xc1'', ''0xc2''], GetCoins (Some ''0x5'') ''0x2::sui::SUI''])"
proof -
  let ?coins = "[\<lparr>coinObjectId = ''0xc1'', coin_digest = ''d1'', coin_version = 3\<rparr>,
              \<lparr>coinObjectId = ''0xc2'', coin_digest = ''d2'', coin_version = 4\<rparr>]"
  have set: "gas_payment (sample_tx [] []) \<noteq> None" by (simp add: sample_tx_def)
  have u: "gas_payment one_coin_tx = None" "gas_payment both_coins_tx = None"
    by (simp_all add: one_coin_tx_def both_coins_tx_def)
  have p: "provider sample_env = Some sample_provider" by (simp add: sample_env_def)
  have g: "getCoins sample_provider who (SUI_TYPE_ARG sample_env) = Inr ?coins" for who
    by (simp add: sample_provider_def)
  have sn: "sender one_coin_tx = Some ''0x5''" "sender both_coins_tx = Some ''0x5''"
    "SUI_TYPE_ARG sample_env = ''0x2::sui::SUI''"
    by (simp_all add: one_coin_tx_def both_coins_tx_def sample_tx_def sample_env_def)
  have o1: "owned_object_ids (inputs (tx one_coin_state)) = {''0xc1''}"
    by (simp add: one_coin_state_def object_input_def)
  have o2: "owned_object_ids (inputs (tx both_coins_state)) = {''0xc1'', ''0xc2''}"
    by (simp add: both_coins_state_def object_input_def)
  have r1: "filter (\<lambda>c. coinObjectId c \<notin> owned_object_ids (inputs (tx one_coin_state))) ?coins
      = [\<lparr>coinObjectId = ''0xc2'', coin_digest = ''d2'', coin_version = 4\<rparr>]"
    by (simp add: o1)
  have r2: "\<forall>c \<in> set ?coins. coinObjectId c \<in> owned_object_ids (inputs (tx both_coins_state))"
    by (simp add: o2)
  have c1: "calls one_coin_state = [GetObjectBatch [''0xc1'']]"
    and c2: "calls both_coins_state = [GetObjectBatch [''0xc1'', ''0xc2'']]"
    by (simp_all add: one_coin_state_def both_coins_state_def)
  have a: "GetCoins (Some ''0x5'') ''0x2::sui::SUI'' \<notin> set (trace_of (prepare sample_env (sample_tx [] [])))"
    using gas_payment_selection [of "sample_tx [] []" sample_env one_coin_state sample_provider ?coins] set
    by blast
  have b: "prepare sample_env one_coin_tx =
       Inr (one_coin_state\<lparr>calls := [GetObjectBatch [''0xc1''], GetCoins (Some ''0x5'') ''0x2::sui::SUI''],
              tx := (tx one_coin_state)\<lparr>gas_payment := Some [SuiObjectRef ''0xc2'' 4 ''d2'']\<rparr>\<rparr>)"
    using gas_payment_selection [of one_coin_tx sample_env one_coin_state sample_provider ?coins]
      u(1) coins_reach_gas(1) p g [of "sender one_coin_tx"] r1 c1 sn
    by (simp add: coin_ref_def)
  have c: "prepare sample_env both_coins_tx =
       Inl (NoValidGasCoins, [GetObjectBatch [''0xc1'', ''0xc2''], GetCoins (Some ''0x5'') ''0x2::sui::SUI''])"
    using gas_payment_selection [of both_coins_tx sample_env both_coins_state sample_provider ?coins]
      u(2) coins_reach_gas(2) p g [of "sender both_coins_tx"] r2 c2 sn
    by simp
  show ?thesis using set a u coins_reach_gas p g [of "sender one_coin_tx"] b c by blast
qed

section \<open>Object reference resolution\<close>

lemma new_Set_fold:
  "distinct acc \<Longrightarrow>
   distinct (fold (\<lambda>x acc. if x \<in> set acc then acc else acc @ [x]) xs acc)
   \<and> set (fold (\<lambda>x acc. if x \<in> set acc then acc else acc @ [x]) xs acc) = set acc \<union> set xs"
  by (induction xs arbitrary: acc) auto

lemma distinct_new_Set: "distinct (new_Set xs)"
  and set_new_Set: "set (new_Set xs) = set xs"
  using new_Set_fold [of "[]" xs] by (simp_all add: new_Set_def)

lemma nth_opt_upt: "n \<le> length xs \<Longrightarrow> map (nth_opt xs) [0 ..< n] = map Some (take n xs)"
  by (rule nth_equalityI) (simp_all add: nth_opt_def)

lemma make_objectsById_zip:
  "length ids \<le> length objects \<Longrightarrow>
   make_objectsById ids objects = zip ids (map Some objects)"
proof -
  assume le: "length ids \<le> length objects"
  have "make_objectsById ids objects = zip ids (map (nth_opt objects) [0 ..< length ids])"
    unfolding make_objectsById_def by (rule nth_equalityI) simp_all
  also have "\<dots> = zip ids (map Some (take (length ids) objects))"
    using nth_opt_upt [OF le] by simp
  also have "\<dots> = zip ids (map Some objects)"
    using le by (intro nth_equalityI) auto
  finally show ?thesis .
qed

lemma invalid_objects_zip:
  "invalid_objects (zip ids (map Some objects)) = Inr (missing_ids ids objects)"
proof (induction ids arbitrary: objects)
  case Nil
  then show ?case by (simp add: missing_ids_def)
next
  case (Cons i ids)
  show ?case
  proof (cases objects)
    case Nil
    then show ?thesis by (simp add: missing_ids_def)
  next
    case (Cons ob obs)
    then show ?thesis using Cons.IH [of obs] by (simp add: missing_ids_def)
  qed
qed

lemma distinct_missing_ids: "distinct ids \<Longrightarrow> distinct (missing_ids ids objects)"
proof -
  assume d: "distinct ids"
  have "distinct (map fst (zip ids objects))"
    using d by (simp add: map_fst_zip_take distinct_take)
  then show ?thesis unfolding missing_ids_def by (rule distinct_map_filter)
qed

lemma set_missing_ids:
  "length ids \<le> length objects \<Longrightarrow>
   set (missing_ids ids objects) = {ids ! k | k. k < length ids \<and> status (objects ! k) \<noteq> Exists}"
  unfolding missing_ids_def by (force simp: set_zip image_iff)

lemma missing_ids_nonempty:
  "length ids \<le> length objects \<Longrightarrow> k < length ids \<Longrightarrow> status (objects ! k) \<noteq> Exists \<Longrightarrow>
   missing_ids ids objects \<noteq> []"
  using set_missing_ids [of ids objects] by (metis (mono_tags, lifting) empty_iff empty_set mem_Collect_eq)

lemma trace_quiet: "quiet f \<Longrightarrow> trace_of (f x s) = calls s"
  unfolding quiet_def trace_of_def advances_def by (force split: sum.splits)

lemma prepare_from_objects:
  "reaches_objects e td s \<Longrightarrow> prepare e td = bind (resolveObjects e s) (selectGasPayment e)"
  unfolding reaches_objects_iff by (auto simp: prepare_def resolveInputs_def bind_def)

text \<open>
  Claim C5. With an empty queue nothing is fetched. Otherwise the ids of the queue are
  requested in one \<open>getObjectBatch\<close> call, each id once, and that is the only remote call
  of the step. When the answer (one entry for each requested id, in order) holds an entry
  that is not \<open>Exists\<close>, the step, and with it the run that reached it, fails with the
  error that lists the ids of all such entries, each once.
\<close>

theorem object_resolution_batched:
  "(objectsToResolve s = [] \<longrightarrow> resolveObjects e s = Inr s)
   \<and> (objectsToResolve s \<noteq> [] \<and> provider e = Some p \<longrightarrow>
        distinct (new_Set (map otr_id (objectsToResolve s)))
        \<and> set (new_Set (map otr_id (objectsToResolve s))) = otr_id ` set (objectsToResolve s)
        \<and> trace_of (resolveObjects e s)
            = calls s @ [GetObjectBatch (new_Set (map otr_id (objectsToResolve s)))]
        \<and> (getObjectBatch p (new_Set (map otr_id (objectsToResolve s))) = Inr objects
             \<and> length (new_Set (map otr_id (objectsToResolve s))) \<le> length objects
             \<and> k < length (new_Set (map otr_id (objectsToResolve s)))
             \<and> status (objects ! k) \<noteq> Exists \<longrightarrow>
             resolveObjects e s =
               Inl (InvalidInputObjects (missing_ids (new_Set (map otr_id (objectsToResolve s))) objects),
                    calls s @ [GetObjectBatch (new_Set (map otr_id (objectsToResolve s)))])
             \<and> distinct (missing_ids (new_Set (map otr_id (objectsToResolve s))) objects)
             \<and> set (missing_ids (new_Set (map otr_id (objectsToResolve s))) objects)
                 = {new_Set (map otr_id (objectsToResolve s)) ! j | j.
                      j < length (new_Set (map otr_id (objectsToResolve s)))
                      \<and> status (objects ! j) \<noteq> Exists}
             \<and> (reaches_objects e td s \<longrightarrow>
                  prepare e td =
                    Inl (InvalidInputObjects (missing_ids (new_Set (map otr_id (objectsToResolve s))) objects),
                         calls s @ [GetObjectBatch (new_Set (map otr_id (objectsToResolve s)))]))))"
proof -
  let ?ids = "new_Set (map otr_id (objectsToResolve s))"
  let ?s1 = "s\<lparr>calls := calls s @ [GetObjectBatch ?ids]\<rparr>"
  have 1: "objectsToResolve s = [] \<longrightarrow> resolveObjects e s = Inr s"
    by (simp add: resolveObjects_def)
  have d: "distinct ?ids" by (rule distinct_new_Set)
  have st: "set ?ids = otr_id ` set (objectsToResolve s)" by (simp add: set_new_Set)
  have tr: "trace_of (resolveObjects e s) = calls s @ [GetObjectBatch ?ids]"
    if ne: "objectsToResolve s \<noteq> []" and p: "provider e = Some p"
  proof (cases "getObjectBatch p ?ids")
    case (Inl m)
    then show ?thesis using ne p by (simp add: resolveObjects_def Let_def fail_def trace_of_def)
  next
    case (Inr objects)
    have "trace_of (resolveFetchedObjects e ?ids objects ?s1) = calls ?s1"
      by (rule trace_quiet [OF quiet_resolveFetchedObjects])
    then show ?thesis using ne p Inr by (simp add: resolveObjects_def Let_def)
  qed
  have miss: "resolveObjects e s = Inl (InvalidInputObjects (missing_ids ?ids objects), calls s @ [GetObjectBatch ?ids])
      \<and> distinct (missing_ids ?ids objects)
      \<and> set (missing_ids ?ids objects) = {?ids ! j | j. j < length ?ids \<and> status (objects ! j) \<noteq> Exists}
      \<and> (reaches_objects e td s \<longrightarrow>
            prepare e td = Inl (InvalidInputObjects (missing_ids ?ids objects), calls s @ [GetObjectBatch ?ids]))"
    if ne: "objectsToResolve s \<noteq> []" and p: "provider e = Some p"
      and g: "getObjectBatch p ?ids = Inr objects" and le: "length ?ids \<le> length objects"
      and k: "k < length ?ids" "status (objects ! k) \<noteq> Exists"
  proof -
    have m: "missing_ids ?ids objects \<noteq> []" by (rule missing_ids_nonempty [OF le k])
    have "resolveFetchedObjects e ?ids objects ?s1
            = Inl (InvalidInputObjects (missing_ids ?ids objects), calls s @ [GetObjectBatch ?ids])"
      using m by (simp add: resolveFetchedObjects_def make_objectsById_zip [OF le]
          invalid_objects_zip fail_def)
    then have r: "resolveObjects e s
            = Inl (InvalidInputObjects (missing_ids ?ids objects), calls s @ [GetObjectBatch ?ids])"
      using ne p g by (simp add: resolveObjects_def Let_def)
    have pr: "prepare e td = Inl (InvalidInputObjects (missing_ids ?ids objects), calls s @ [GetObjectBatch ?ids])"
      if "reaches_objects e td s"
      using prepare_from_objects [OF that] r by (simp add: bind_def)
    show ?thesis using r distinct_missing_ids [OF d] set_missing_ids [OF le] pr by blast
  qed
  show ?thesis using 1 d st tr miss by blast
qed

theorem object_resolution_batched_witness:
  "objectsToResolve unknown_state \<noteq> [] \<and> provider sample_env = Some sample_provider
   \<and> new_Set (map otr_id (objectsToResolve unknown_state)) = [''0xa'', ''0xdead'']
   \<and> getObjectBatch sample_provider [''0xa'', ''0xdead'']
       = Inr [sample_object ''0xa'', sample_object ''0xdead'']
   \<and> (1::nat) < length [''0xa'', ''0xdead'']
   \<and> status ([sample_object ''0xa'', sample_object ''0xdead''] ! 1) \<noteq> Exists
   \<and> reaches_objects sample_env unknown_tx unknown_state
   \<and> trace_of (resolveObjects sample_env unknown_state) = [GetObjectBatch [''0xa'', ''0xdead'']]
   \<and> prepare sample_env unknown_tx
       = Inl (InvalidInputObjects [''0xdead''], [GetObjectBatch [''0xa'', ''0xdead'']])"
proof -
  let ?objects = "[sample_object ''0xa'', sample_object ''0xdead'']"
  have ne: "objectsToResolve unknown_state \<noteq> []" by (simp add: unknown_state_def)
  have p: "provider sample_env = Some sample_provider" by (simp add: sample_env_def)
  have ids: "new_Set (map otr_id (objectsToResolve unknown_state)) = [''0xa'', ''0xdead'']"
    by (simp add: unknown_state_def new_Set_def)
  have g: "getObjectBatch sample_provider [''0xa'', ''0xdead''] = Inr ?objects"
    by (simp add: sample_provider_def)
  have k: "(1::nat) < length [''0xa'', ''0xdead'']" by simp
  have nf: "status (?objects ! 1) \<noteq> Exists" by (simp add: sample_object_def)
  have le: "length [''0xa'', ''0xdead''] \<le> length ?objects" by simp
  have c: "calls unknown_state = []" by (simp add: unknown_state_def)
  have m: "missing_ids [''0xa'', ''0xdead''] ?objects = [''0xdead'']"
    by (simp add: missing_ids_def sample_object_def)
  have r: "reaches_objects sample_env unknown_tx unknown_state"
    unfolding reaches_objects_iff
  proof (intro exI conjI)
    show "checkPreconditions sample_env unknown_tx = Inr (start_state unknown_tx)"
      by (simp add: checkPreconditions_def unset_def unknown_tx_def sample_tx_def)
    show "classifyCommands sample_env (start_state unknown_tx) = Inr unknown_state"
      by (simp add: run_defs sample_defs unknown_tx_def unknown_state_def)
    show "resolveMoveCalls sample_env unknown_state = Inr unknown_state"
      by (simp add: resolveMoveCalls_def unknown_state_def)
  qed
  from object_resolution_batched [of unknown_state sample_env sample_provider ?objects 1 unknown_tx]
    ne p g k nf le r
  have "trace_of (resolveObjects sample_env unknown_state) = [GetObjectBatch [''0xa'', ''0xdead'']]
      \<and> prepare sample_env unknown_tx
            = Inl (InvalidInputObjects [''0xdead''], [GetObjectBatch [''0xa'', ''0xdead'']])"
    unfolding ids m c by (simp add: trace_of_def)
  then show ?thesis using ne p ids g k nf r by blast
qed

section \<open>Mutability of shared objects\<close>



lemma length_set_input_value [simp]:
  "length (inputs (tx (set_input_value j v s))) = length (inputs (tx s))"
  by (simp add: set_input_value_def)







section \<open>Errors of signature resolution and classification\<close>

lemma forEachM_error_origin:
  "forEachM f xs s = Inl err \<Longrightarrow> \<exists>x \<in> set xs. \<exists>s0. f x s0 = Inl err"
proof (induction xs arbitrary: s)
  case Nil
  then show ?case by simp
next
  case (Cons x xs)
  show ?case
  proof (cases "f x s")
    case (Inl a)
    then show ?thesis using Cons.prems by auto
  next
    case (Inr s1)
    then have "forEachM f xs s1 = Inl err" using Cons.prems by simp
    from Cons.IH [OF this] show ?thesis by auto
  qed
qed

lemma forEachM_each_succeeds:
  "forEachM f xs s = Inr s' \<Longrightarrow> x \<in> set xs \<Longrightarrow> \<exists>s0 s1. f x s0 = Inr s1"
proof (induction xs arbitrary: s)
  case Nil
  then show ?case by simp
next
  case (Cons y xs)
  from Cons.prems(1) obtain s1 where 1: "f y s = Inr s1" and 2: "forEachM f xs s1 = Inr s'"
    by (auto split: sum.splits)
  show ?case
  proof (cases "x = y")
    case True
    then show ?thesis using 1 by blast
  next
    case False
    then have "x \<in> set xs" using Cons.prems(2) by simp
    from Cons.IH [OF 2 this] show ?thesis .
  qed
qed


lemma resolveParam_errors:
  "resolveParam e args ip s = Inl (err, issued) \<Longrightarrow> err \<noteq> IncorrectNumberOfArguments"
  by (auto simp: resolveParam_def fail_def Let_def
      split: prod.splits command_argument.splits if_splits sum.splits js_value.splits)

lemma expected_params_snoc:
  "expected_params e (ps @ [q]) = (if isTxContext e q then ps else ps @ [q])"
  by (simp add: expected_params_def)

lemma resolveMoveCall_mismatch:
  "fetch_parameters e p mc = Inr parameters \<Longrightarrow>
   length (snd mc) \<noteq> length (expected_params e parameters) \<Longrightarrow>
   resolveMoveCall e p mc s = Inl (IncorrectNumberOfArguments, calls s)"
  by (auto simp: resolveMoveCall_def fail_def Let_def)

lemma resolveMoveCall_count_error:
  assumes f: "fetch_parameters e p mc = Inr parameters"
  shows "(error_of (resolveMoveCall e p mc s) = Some IncorrectNumberOfArguments)
           = (length (snd mc) \<noteq> length (expected_params e parameters))"
proof (cases "length (snd mc) = length (expected_params e parameters)")
  case False
  then show ?thesis using resolveMoveCall_mismatch [OF f, of s] by (simp add: error_of_def)
next
  case True
  let ?loop = "forEachM (resolveParam e (snd mc)) (enumerate 0 (expected_params e parameters)) s"
  have r: "resolveMoveCall e p mc s = ?loop"
    using f True by (simp add: resolveMoveCall_def Let_def)
  have "error_of ?loop \<noteq> Some IncorrectNumberOfArguments"
  proof
    assume a: "error_of ?loop = Some IncorrectNumberOfArguments"
    then obtain issued where "?loop = Inl (IncorrectNumberOfArguments, issued)"
      by (auto simp: error_of_def split: sum.splits)
    from forEachM_error_origin [OF this] resolveParam_errors show False by blast
  qed
  then show ?thesis using r True by simp
qed

lemma prepare_reaches_signatures:
  "reaches_signatures e td s \<Longrightarrow>
   prepare e td = bind (bind (resolveMoveCalls e s) (resolveObjects e)) (selectGasPayment e)"
  unfolding reaches_signatures_iff by (auto simp: prepare_def resolveInputs_def bind_def)

lemma resolveMoveCalls_mismatch:
  assumes p: "provider e = Some p" and q: "mc \<in> set (moveModulesToResolve s)"
    and f: "fetch_parameters e p mc = Inr parameters"
    and m: "length (snd mc) \<noteq> length (expected_params e parameters)"
  shows "\<exists>err issued. resolveMoveCalls e s = Inl (err, issued)"
proof (cases "resolveMoveCalls e s")
  case (Inl a)
  then show ?thesis by (cases a) simp
next
  case (Inr s')
  have ne: "moveModulesToResolve s \<noteq> []" using q by auto
  from Inr have "forEachM (resolveMoveCall e p) (moveModulesToResolve s)
      (s\<lparr>calls := calls s @ map (request_of e) (moveModulesToResolve s)\<rparr>) = Inr s'"
    using p ne by (simp add: resolveMoveCalls_def)
  from forEachM_each_succeeds [OF this q] obtain s0 s1 where "resolveMoveCall e p mc s0 = Inr s1"
    by blast
  with resolveMoveCall_mismatch [OF f m, of s0] show ?thesis by simp
qed

text \<open>
  Claim C3, amended. The expected parameters are the fetched parameters without a trailing
  transaction-context parameter. For a queued call whose signature was fetched, resolution
  of the call fails with the argument-count error exactly when the number of arguments
  differs from the number of expected parameters; it then fails before any argument is
  looked at, and a run that reaches signature resolution with such a call in the queue
  fails. (With equal numbers the call can still fail with another format error.)
\<close>

theorem argument_count_checked:
  "expected_params e [] = []
   \<and> expected_params e (ps @ [q]) = (if isTxContext e q then ps else ps @ [q])
   \<and> (fetch_parameters e p mc = Inr parameters \<longrightarrow>
        (error_of (resolveMoveCall e p mc s) = Some IncorrectNumberOfArguments)
          = (length (snd mc) \<noteq> length (expected_params e parameters))
        \<and> (length (snd mc) \<noteq> length (expected_params e parameters) \<longrightarrow>
             resolveMoveCall e p mc s = Inl (IncorrectNumberOfArguments, calls s)
             \<and> (provider e = Some p \<and> reaches_signatures e td s
                  \<and> mc \<in> set (moveModulesToResolve s) \<longrightarrow>
                  (\<exists>err issued. prepare e td = Inl (err, issued)))))"
proof -
  have 1: "expected_params e [] = []" by (simp add: expected_params_def)
  have 3: "(\<exists>err issued. prepare e td = Inl (err, issued))"
    if "fetch_parameters e p mc = Inr parameters"
      "length (snd mc) \<noteq> length (expected_params e parameters)"
      "provider e = Some p" "reaches_signatures e td s" "mc \<in> set (moveModulesToResolve s)"
  proof -
    from resolveMoveCalls_mismatch [OF that(3) that(5) that(1) that(2)]
    obtain err issued where "resolveMoveCalls e s = Inl (err, issued)" by blast
    then show ?thesis using prepare_reaches_signatures [OF that(4)] by (simp add: bind_def)
  qed
  show ?thesis
    using 1 expected_params_snoc resolveMoveCall_count_error resolveMoveCall_mismatch 3
    by blast
qed

text \<open>
  Claim C3 as stated fails: the spec's scenario with the number 7 in place of the object id
  supplies two arguments for two expected parameters and fails with a format error.
\<close>

theorem equal_count_format_error_counterexample:
  "fetch_parameters sample_env sample_provider (''0x2::m::f'', [Input 0, Input 1])
     = Inr (sample_signature (Some ''f''))
   \<and> length (expected_params sample_env (sample_signature (Some ''f''))) = length [Input 0, Input 1]
   \<and> prepare sample_env numbers_tx
       = Inl (ExpectObjectIdString (JNumber 7),
              [GetNormalizedMoveFunction ''0x2'' (Some ''m'') (Some ''f'')])
   \<and> is_format_error (ExpectObjectIdString (JNumber 7))"
  by (simp add: run_defs sample_defs numbers_tx_def is_format_error_def)

text \<open>
  Claim C1 at a failing input: the object of the spec's scenario passed as an already
  resolved shared object reference. The test of line 412 looks at the input, which is
  never a call argument, so the input is not skipped and the run fails on it.
\<close>

theorem resolved_object_not_skipped:
  "is_BuilderCallArg (input_value (inputs resolved_object_tx ! 0))
   \<and> prepare sample_env resolved_object_tx
       = Inl (ExpectObjectIdString (JCallArg (Object (Shared (SharedObjectRef ''0xa'' 5 True)))),
              [GetNormalizedMoveFunction ''0x2'' (Some ''m'') (Some ''f'')])"
  by (simp add: run_defs sample_defs resolved_object_tx_def)








theorem argument_count_checked_witness:
  "fetch_parameters sample_env sample_provider (''0x2::m::f'', [Input 0])
     = Inr (sample_signature (Some ''f''))
   \<and> expected_params sample_env (sample_signature (Some ''f''))
       = [MutableReference (Struct ''0x2'' ''m'' ''SomeStruct'' []), Primitive ''U64'']
   \<and> length (snd (''0x2::m::f'', [Input 0]))
       \<noteq> length (expected_params sample_env (sample_signature (Some ''f'')))
   \<and> provider sample_env = Some sample_provider
   \<and> reaches_signatures sample_env one_argument_tx one_argument_state
   \<and> (''0x2::m::f'', [Input 0]) \<in> set (moveModulesToResolve one_argument_state)
   \<and> resolveMoveCall sample_env sample_provider (''0x2::m::f'', [Input 0]) one_argument_state
       = Inl (IncorrectNumberOfArguments, [])
   \<and> (\<exists>err issued. prepare sample_env one_argument_tx = Inl (err, issued))
   \<and> fetch_parameters sample_env sample_provider (''0x2::m::f'', [Input 0, Input 1])
       = Inr (sample_signature (Some ''f''))
   \<and> error_of (resolveMoveCall sample_env sample_provider (''0x2::m::f'', [Input 0, Input 1])
                 (start_state numbers_tx)) \<noteq> Some IncorrectNumberOfArguments"
proof -
  let ?one = "(''0x2::m::f'', [Input 0])"
  let ?two = "(''0x2::m::f'', [Input 0, Input 1])"
  have f1: "fetch_parameters sample_env sample_provider ?one = Inr (sample_signature (Some ''f''))"
    by (simp add: fetch_parameters_def sample_defs nth_opt_def)
  have f2: "fetch_parameters sample_env sample_provider ?two = Inr (sample_signature (Some ''f''))"
    by (simp add: fetch_parameters_def sample_defs nth_opt_def)
  have ex: "expected_params sample_env (sample_signature (Some ''f''))
       = [MutableReference (Struct ''0x2'' ''m'' ''SomeStruct'' []), Primitive ''U64'']"
    by (simp add: expected_params_def sample_defs)
  have ne: "length (snd ?one) \<noteq> length (expected_params sample_env (sample_signature (Some ''f'')))"
    by (simp add: ex)
  have eq: "\<not> length (snd ?two) \<noteq> length (expected_params sample_env (sample_signature (Some ''f'')))"
    by (simp add: ex)
  have p: "provider sample_env = Some sample_provider" by (simp add: sample_env_def)
  have r: "reaches_signatures sample_env one_argument_tx one_argument_state"
    unfolding reaches_signatures_iff
  proof (intro exI conjI)
    show "checkPreconditions sample_env one_argument_tx = Inr (start_state one_argument_tx)"
      by (simp add: checkPreconditions_def unset_def one_argument_tx_def sample_tx_def)
    show "classifyCommands sample_env (start_state one_argument_tx) = Inr one_argument_state"
      by (simp add: run_defs sample_defs one_argument_tx_def one_argument_state_def)
  qed
  have q: "?one \<in> set (moveModulesToResolve one_argument_state)"
    by (simp add: one_argument_state_def)
  have c: "calls one_argument_state = []" by (simp add: one_argument_state_def start_state_def)
  note t1 = argument_count_checked [of sample_env "[]" "Primitive ''U64''" sample_provider ?one
      "sample_signature (Some ''f'')" one_argument_state one_argument_tx]
  note t2 = argument_count_checked [of sample_env "[]" "Primitive ''U64''" sample_provider ?two
      "sample_signature (Some ''f'')" "start_state numbers_tx" numbers_tx]
  have a: "resolveMoveCall sample_env sample_provider ?one one_argument_state
       = Inl (IncorrectNumberOfArguments, [])"
    using t1 f1 ne c by simp
  have b: "\<exists>err issued. prepare sample_env one_argument_tx = Inl (err, issued)"
    using t1 f1 ne p r q by blast
  have d: "error_of (resolveMoveCall sample_env sample_provider ?two (start_state numbers_tx))
            \<noteq> Some IncorrectNumberOfArguments"
    using t2 f2 eq by blast
  show ?thesis using f1 ex ne p r q a b f2 d by blast
qed


section \<open>Queued demands and the final flag\<close>
































end
